theory Spec2Isabelle
  imports Main "HOL-Library.AList" "HOL-Library.Sublist" "HOL-Library.Multiset"
begin

section \<open>Values of the program\<close>

text \<open>
  A Python \<open>str\<close> is a sequence of Unicode code points, so a string is a list of
  natural numbers; a code point of a real Python string is below \<open>0x110000\<close>
  (\<open>valid_str\<close>). Literals of the source are written with \<open>lit\<close>, which maps the
  characters of an ASCII literal to their code points.
\<close>

type_synonym pystr = "nat list"

definition lit :: "string \<Rightarrow> pystr" where
  "lit s = map of_char s"

definition valid_str :: "pystr \<Rightarrow> bool" where
  "valid_str s = list_all (\<lambda>c. c < 0x110000) s"

text \<open>
  The values that \<open>json.load\<close> and the response parser produce, and that the records
  carry. A dict is an association list in insertion order; it is read through
  \<open>map_of\<close> (the first binding of a key is the dict's binding), so a list with distinct
  keys is exactly a Python dict. Floating-point numbers are left out.
\<close>

datatype json =
    JNull
  | JBool bool
  | JInt int
  | JStr pystr
  | JList "json list"
  | JObj "(pystr \<times> json) list"

type_synonym pydict = "(pystr \<times> json) list"

text \<open>The exceptions the program can meet; every one of them is an \<open>Exception\<close>.\<close>

datatype error =
    OutputParserException
  | ValueError
  | TypeError
  | KeyError
  | AttributeError
  | UnicodeDecodeError
  | FileNotFoundError
  | JSONDecodeError
  | OtherException

section \<open>String operations of the standard library\<close>

text \<open>
  \<open>s.replace(old, new)\<close>: the occurrences of \<open>old\<close> are found from the left and do
  not overlap. With an empty \<open>old\<close>, Python puts \<open>new\<close> before every character and at
  the end.
\<close>

function str_replace :: "pystr \<Rightarrow> pystr \<Rightarrow> pystr \<Rightarrow> pystr" where
  "str_replace old new s =
     (if old = [] then new @ concat (map (\<lambda>c. c # new) s)
      else if s = [] then []
      else if prefix old s then new @ str_replace old new (drop (length old) s)
      else hd s # str_replace old new (tl s))"
  by pat_completeness auto
termination
  by (relation "measure (\<lambda>(old, new, s). length s)") (auto simp: neq_Nil_conv)

text \<open>
  \<open>len(s.split(sep))\<close> for a separator of one character: the pieces between the
  occurrences of the separator, the empty string giving one empty piece.
\<close>

fun split_acc :: "nat \<Rightarrow> pystr \<Rightarrow> pystr \<Rightarrow> pystr list" where
  "split_acc sep acc [] = [rev acc]"
| "split_acc sep acc (c # cs) =
     (if c = sep then rev acc # split_acc sep [] cs else split_acc sep (c # acc) cs)"

definition str_split :: "nat \<Rightarrow> pystr \<Rightarrow> pystr list" where
  "str_split sep s = split_acc sep [] s"

subsection \<open>UTF-8\<close>

definition is_surrogate :: "nat \<Rightarrow> bool" where
  "is_surrogate c = (0xD800 \<le> c \<and> c \<le> 0xDFFF)"

text \<open>
  The bytes of one code point; \<open>None\<close> for a code point UTF-8 cannot encode (a lone
  surrogate, or a number that is no code point).
\<close>

definition utf8_encode_cp :: "nat \<Rightarrow> nat list option" where
  "utf8_encode_cp c =
     (if c < 0x80 then Some [c]
      else if c < 0x800 then Some [0xC0 + c div 64, 0x80 + c mod 64]
      else if is_surrogate c then None
      else if c < 0x10000 then
        Some [0xE0 + c div 4096, 0x80 + (c div 64) mod 64, 0x80 + c mod 64]
      else if c < 0x110000 then
        Some [0xF0 + c div 262144, 0x80 + (c div 4096) mod 64,
              0x80 + (c div 64) mod 64, 0x80 + c mod 64]
      else None)"

text \<open>\<open>s.encode('utf-8', errors='ignore')\<close>: what cannot be encoded is dropped.\<close>

fun utf8_encode_ignore :: "pystr \<Rightarrow> nat list" where
  "utf8_encode_ignore [] = []"
| "utf8_encode_ignore (c # cs) =
     (case utf8_encode_cp c of
        None \<Rightarrow> utf8_encode_ignore cs
      | Some bs \<Rightarrow> bs @ utf8_encode_ignore cs)"

definition is_cont :: "nat \<Rightarrow> bool" where
  "is_cont b = (0x80 \<le> b \<and> b < 0xC0)"

text \<open>
  The strict decoder reads one code point and returns it with the number of
  continuation bytes it took. Overlong forms, encoded surrogates, code points above
  \<open>0x10FFFF\<close>, stray continuation bytes and truncated sequences are refused.
\<close>

definition utf8_decode_one :: "nat list \<Rightarrow> (nat \<times> nat) option" where
  "utf8_decode_one bs =
     (case bs of
        [] \<Rightarrow> None
      | b0 # r0 \<Rightarrow>
          if b0 < 0x80 then Some (b0, 0)
          else if 0xC2 \<le> b0 \<and> b0 < 0xE0 then
            (case r0 of
               b1 # _ \<Rightarrow>
                 if is_cont b1 then Some ((b0 - 0xC0) * 64 + (b1 - 0x80), 1) else None
             | _ \<Rightarrow> None)
          else if 0xE0 \<le> b0 \<and> b0 < 0xF0 then
            (case r0 of
               b1 # b2 # _ \<Rightarrow>
                 (let c = (b0 - 0xE0) * 4096 + (b1 - 0x80) * 64 + (b2 - 0x80)
                  in if is_cont b1 \<and> is_cont b2 \<and> 0x800 \<le> c \<and> \<not> is_surrogate c
                     then Some (c, 2) else None)
             | _ \<Rightarrow> None)
          else if 0xF0 \<le> b0 \<and> b0 < 0xF5 then
            (case r0 of
               b1 # b2 # b3 # _ \<Rightarrow>
                 (let c = (b0 - 0xF0) * 262144 + (b1 - 0x80) * 4096
                          + (b2 - 0x80) * 64 + (b3 - 0x80)
                  in if is_cont b1 \<and> is_cont b2 \<and> is_cont b3
                        \<and> 0x10000 \<le> c \<and> c < 0x110000
                     then Some (c, 3) else None)
             | _ \<Rightarrow> None)
          else None)"

text \<open>\<open>b.decode('utf-8')\<close>: raises \<open>UnicodeDecodeError\<close> at the first invalid sequence.\<close>

function utf8_decode :: "nat list \<Rightarrow> error + pystr" where
  "utf8_decode bs =
     (if bs = [] then Inr []
      else (case utf8_decode_one bs of
              None \<Rightarrow> Inl UnicodeDecodeError
            | Some (c, n) \<Rightarrow>
                (case utf8_decode (drop (Suc n) bs) of
                   Inl e \<Rightarrow> Inl e
                 | Inr cs \<Rightarrow> Inr (c # cs))))"
  by pat_completeness auto
termination
  by (relation "measure length") auto

section \<open>The sanitizer: \<open>clean_unicode_text\<close>\<close>

definition backslash_n :: pystr where "backslash_n = [0x5C, 0x6E]"
definition backslash_t :: pystr where "backslash_t = [0x5C, 0x74]"
definition newline :: nat where "newline = 0x0A"
definition tab :: nat where "tab = 0x09"
definition space :: nat where "space = 0x20"

text \<open>\<open>re.sub(r'[\ud800-\udfff]', '', text)\<close>\<close>

definition sub_surrogates :: "pystr \<Rightarrow> pystr" where
  "sub_surrogates s = filter (\<lambda>c. \<not> is_surrogate c) s"

text \<open>
  The body of the \<open>try\<close>: surrogates removed, the two escape sequences replaced (first
  backslash-n, then backslash-t), then the round trip through UTF-8. Each statement
  assigns to \<open>text\<close> again, so the result is the exception raised, if any, with the
  value \<open>text\<close> has when the body ends. Only the decoding can raise.
\<close>

definition clean_try :: "pystr \<Rightarrow> error option \<times> pystr" where
  "clean_try text0 =
     (let text1 = sub_surrogates text0;
          text2 = str_replace backslash_t [tab] (str_replace backslash_n [newline] text1)
      in case utf8_decode (utf8_encode_ignore text2) of
           Inl e \<Rightarrow> (Some e, text2)
         | Inr text3 \<Rightarrow> (None, text3))"

text \<open>
  The handler: \<open>re.sub(r'[^\x00-\x7F\u0080-\uFFFF]', ' ', str(text))\<close>, every code
  point above \<open>0xFFFF\<close> becomes a space.
\<close>

definition clean_fallback :: "pystr \<Rightarrow> pystr" where
  "clean_fallback s = map (\<lambda>c. if c \<le> 0xFFFF then c else space) s"

text \<open>
  A value that is not a string is returned as it is. For a string, \<open>except Exception\<close>
  catches whatever the body raises, and the handler, which only maps over the value
  of \<open>text\<close> at that moment, raises nothing.
\<close>

definition clean_unicode_text :: "json \<Rightarrow> json" where
  "clean_unicode_text v =
     (case v of
        JStr s \<Rightarrow> (case clean_try s of
                     (None, t) \<Rightarrow> JStr t
                   | (Some e, t) \<Rightarrow> JStr (clean_fallback t))
      | _ \<Rightarrow> v)"

section \<open>Dicts, truth values, hashing\<close>

definition k_text :: pystr where "k_text = lit ''text''"
definition k_line_count :: pystr where "k_line_count = lit ''line_count''"
definition k_language :: pystr where "k_language = lit ''language''"
definition k_tags :: pystr where "k_tags = lit ''tags''"

definition required_keys :: "pystr list" where
  "required_keys = [k_line_count, k_language, k_tags]"

text \<open>
  The items of the dict an association list stands for (the first binding of each key),
  and \<open>d | m\<close>: the bindings of \<open>m\<close> are stored into \<open>d\<close> one after the other, a key \<open>d\<close>
  has keeps its place, a new key goes to the end.
\<close>

definition dict_items :: "pydict \<Rightarrow> pydict" where
  "dict_items d = AList.clearjunk d"

definition dict_merge :: "pydict \<Rightarrow> pydict \<Rightarrow> pydict" where
  "dict_merge d m = fold (\<lambda>(k, v). AList.update k v) (dict_items m) d"

fun truthy :: "json \<Rightarrow> bool" where
  "truthy JNull = False"
| "truthy (JBool b) = b"
| "truthy (JInt i) = (i \<noteq> 0)"
| "truthy (JStr s) = (s \<noteq> [])"
| "truthy (JList xs) = (xs \<noteq> [])"
| "truthy (JObj m) = (m \<noteq> [])"

fun is_list :: "json \<Rightarrow> bool" where
  "is_list (JList xs) = True"
| "is_list _ = False"

fun is_str :: "json \<Rightarrow> bool" where
  "is_str (JStr s) = True"
| "is_str _ = False"

fun hashable :: "json \<Rightarrow> bool" where
  "hashable (JList xs) = False"
| "hashable (JObj m) = False"
| "hashable _ = True"

text \<open>
  Equality of hashable values as a Python set sees it: \<open>True == 1\<close> and \<open>False == 0\<close>.
  It is only used with a hashable value on one side.
\<close>

fun as_number :: "json \<Rightarrow> json" where
  "as_number (JBool b) = JInt (if b then 1 else 0)"
| "as_number v = v"

definition py_eq :: "json \<Rightarrow> json \<Rightarrow> bool" where
  "py_eq a b = (as_number a = as_number b)"

text \<open>
  A Python set is kept as the list of its elements in the order they were first added.
  The order in which Python iterates over a set is not this order (it follows the
  hashes); it is a parameter of the model, \<open>set_iter\<close> below.
\<close>

definition set_add :: "json \<Rightarrow> json list \<Rightarrow> json list" where
  "set_add x s = (if list_ex (py_eq x) s then s else s @ [x])"

text \<open>\<open>s.update(xs)\<close> raises \<open>TypeError\<close> at the first element that is not hashable.\<close>

fun set_update :: "json list \<Rightarrow> json list \<Rightarrow> error + json list" where
  "set_update s [] = Inr s"
| "set_update s (x # xs) =
     (if hashable x then set_update (set_add x s) xs else Inl TypeError)"

text \<open>Iterating over a value: a list, the characters of a string, the keys of a dict.\<close>

fun py_iter :: "json \<Rightarrow> error + json list" where
  "py_iter (JList xs) = Inr xs"
| "py_iter (JStr s) = Inr (map (\<lambda>c. JStr [c]) s)"
| "py_iter (JObj m) = Inr (map (\<lambda>(k, v). JStr k) (dict_items m))"
| "py_iter _ = Inl TypeError"

text \<open>\<open>sep.join(xs)\<close>: every element has to be a string.\<close>

fun str_join :: "pystr \<Rightarrow> json list \<Rightarrow> error + pystr" where
  "str_join sep [] = Inr []"
| "str_join sep [JStr s] = Inr s"
| "str_join sep (JStr s # x # xs) =
     (case str_join sep (x # xs) of
        Inl e \<Rightarrow> Inl e
      | Inr r \<Rightarrow> Inr (s @ sep @ r))"
| "str_join sep (_ # xs) = Inl TypeError"

text \<open>\<open>len(text.split('\n'))\<close>; a value that is not a string has no \<open>split\<close>.\<close>

fun line_count_of :: "json \<Rightarrow> error + int" where
  "line_count_of (JStr s) = Inr (int (length (str_split newline s)))"
| "line_count_of _ = Inl AttributeError"

section \<open>The world outside the program\<close>

text \<open>
  The language model, the response parser, the files and the hash order of sets are not
  part of the program. They are the fields of an environment; \<open>'w\<close> is the state of
  the world, which a call of the model or a write to a file may change.
  \<^item> \<open>invoke env w template var v\<close> is \<open>chain.invoke(input={var: v})\<close> for the chain
    built from \<open>template\<close>: the \<open>content\<close> of the response or the exception raised,
    and the new state;
  \<^item> \<open>parse\<close> is \<open>JsonOutputParser().parse\<close>;
  \<^item> \<open>set_iter\<close> gives the order in which Python iterates over a set, from the order
    in which its elements were added;
  \<^item> \<open>read_file\<close> is \<open>open(path, encoding='utf-8')\<close> with the reading of the file,
    \<open>json_load\<close> the parsing of its text by \<open>json.load\<close>;
  \<^item> \<open>write_json\<close> is \<open>open(path, mode="w")\<close> followed by \<open>json.dump\<close>: the
    exception raised, if any, and the new state.
\<close>

record 'w env =
  invoke :: "'w \<Rightarrow> pystr \<Rightarrow> pystr \<Rightarrow> json \<Rightarrow> (error + pystr) \<times> 'w"
  parse :: "pystr \<Rightarrow> error + json"
  set_iter :: "json list \<Rightarrow> json list"
  read_file :: "'w \<Rightarrow> pystr \<Rightarrow> error + pystr"
  json_load :: "pystr \<Rightarrow> error + json"
  write_json :: "'w \<Rightarrow> pystr \<Rightarrow> json \<Rightarrow> error option \<times> 'w"

text \<open>An iteration order lists the elements of the set, each once.\<close>

definition iter_ok :: "'w env \<Rightarrow> bool" where
  "iter_ok env = (\<forall>xs. mset (set_iter env xs) = mset xs)"

fun lines_join :: "string list \<Rightarrow> pystr" where
  "lines_join [] = []"
| "lines_join [l] = lit l"
| "lines_join (l # ls) = lit l @ [newline] @ lines_join ls"

definition extract_template :: pystr where
  \<open>extract_template = lines_join
     ['''',
      ''    You are given a LinkedIn post. You need to extract number of lines, language of the post and tags.'',
      ''    1. Return a valid JSON. No preamble. '',
      ''    2. JSON object should have exactly three keys: line_count, language and tags. '',
      ''    3. tags is an array of text tags. Extract maximum two tags.'',
      ''    4. Language should be English or Hinglish (Hinglish means hindi + english)'',
      ''    '',
      ''    Here is the actual post on which you need to perform this task:  '',
      ''    {post}'',
      ''    '']\<close>

definition unify_template :: pystr where
  \<open>unify_template = lines_join
     [''I will give you a list of tags. You need to unify tags with the following requirements,'',
      ''    1. Tags are unified and merged to create a shorter list. '',
      ''       Example 1: "Jobseekers", "Job Hunting" can be all merged into a single tag "Job Search". '',
      ''       Example 2: "Motivation", "Inspiration", "Drive" can be mapped to "Motivation"'',
      ''       Example 3: "Personal Growth", "Personal Development", "Self Improvement" can be mapped to "Self Improvement"'',
      ''       Example 4: "Scam Alert", "Job Scam" etc. can be mapped to "Scams"'',
      ''    2. Each tag should follow title case convention. example: "Motivation", "Job Search"'',
      ''    3. Output should be a JSON object, No preamble'',
      ''    4. Output should have mapping of original tag and the unified tag. '',
      ''       For example: {{"Jobseekers": "Job Search",  "Job Hunting": "Job Search", "Motivation": "Motivation"}}'',
      ''    '',
      ''    Here is the list of tags: '',
      ''    {tags}'',
      ''    '']\<close>

text \<open>
  \<open>response = chain.invoke(...)\<close> and \<open>res = json_parser.parse(response.content)\<close>, the
  first two statements of both \<open>try\<close> blocks.
\<close>

definition ask :: "'w env \<Rightarrow> 'w \<Rightarrow> pystr \<Rightarrow> pystr \<Rightarrow> json \<Rightarrow> (error + json) \<times> 'w" where
  "ask env w template var v =
     (case invoke env w template var v of
        (Inl e, w') \<Rightarrow> (Inl e, w')
      | (Inr content, w') \<Rightarrow> (parse env content, w'))"

section \<open>\<open>extract_metadata\<close>\<close>

text \<open>
  \<open>key in res\<close>: a key of a dict, an element of a list, a substring of a string; any
  other value is not a container.
\<close>

fun contains_key :: "json \<Rightarrow> pystr \<Rightarrow> error + bool" where
  "contains_key (JObj m) k = Inr (map_of m k \<noteq> None)"
| "contains_key (JList xs) k = Inr (list_ex (py_eq (JStr k)) xs)"
| "contains_key (JStr s) k = Inr (sublist k s)"
| "contains_key _ k = Inl TypeError"

text \<open>\<open>all(key in res for key in keys)\<close> stops at the first key that is missing.\<close>

fun all_keys_in :: "json \<Rightarrow> pystr list \<Rightarrow> error + bool" where
  "all_keys_in res [] = Inr True"
| "all_keys_in res (k # ks) =
     (case contains_key res k of
        Inl e \<Rightarrow> Inl e
      | Inr b \<Rightarrow> if b then all_keys_in res ks else Inr False)"

text \<open>
  The statements after the parse: the three keys have to be there
  (\<open>ValueError\<close> otherwise), and a \<open>tags\<close> that is no list is wrapped into one, or
  replaced by \<open>['General']\<close> when it is falsy. \<open>res['tags']\<close> raises \<open>TypeError\<close> on a
  list or a string.
\<close>

definition validate_response :: "json \<Rightarrow> error + pydict" where
  "validate_response res =
     (case all_keys_in res required_keys of
        Inl e \<Rightarrow> Inl e
      | Inr False \<Rightarrow> Inl ValueError
      | Inr True \<Rightarrow>
          (case res of
             JObj m \<Rightarrow>
               (case map_of m k_tags of
                  None \<Rightarrow> Inl KeyError
                | Some t \<Rightarrow>
                    if is_list t then Inr m
                    else Inr (AList.update k_tags
                           (if truthy t then JList [t] else JList [JStr (lit ''General'')]) m))
           | _ \<Rightarrow> Inl TypeError))"

definition default_metadata :: "int \<Rightarrow> pydict" where
  "default_metadata n =
     [(k_line_count, JInt n),
      (k_language, JStr (lit ''English'')),
      (k_tags, JList [JStr (lit ''General'')])]"

text \<open>
  The text is cleaned once more. An \<open>OutputParserException\<close> is raised again (as a new
  \<open>OutputParserException\<close>); any other exception gives the default metadata, whose
  line count is taken from the cleaned text.
\<close>

definition extract_metadata :: "'w env \<Rightarrow> 'w \<Rightarrow> json \<Rightarrow> (error + pydict) \<times> 'w" where
  "extract_metadata env w post =
     (let cleaned_post = clean_unicode_text post
      in case ask env w extract_template (lit ''post'') cleaned_post of
           (r, w') \<Rightarrow>
             (case (case r of Inl e \<Rightarrow> Inl e | Inr res \<Rightarrow> validate_response res) of
                Inr res \<Rightarrow> (Inr res, w')
              | Inl e \<Rightarrow>
                  if e = OutputParserException then (Inl OutputParserException, w')
                  else (case line_count_of cleaned_post of
                          Inl e' \<Rightarrow> (Inl e', w')
                        | Inr n \<Rightarrow> (Inr (default_metadata n), w'))))"

section \<open>\<open>get_unified_tags\<close>\<close>

text \<open>The loop over the posts: the tags of every post whose \<open>tags\<close> is a list.\<close>

fun collect_tags :: "json list \<Rightarrow> pydict list \<Rightarrow> error + json list" where
  "collect_tags s [] = Inr s"
| "collect_tags s (post # posts) =
     (case map_of post k_tags of
        Some (JList ts) \<Rightarrow>
          (case set_update s ts of
             Inl e \<Rightarrow> Inl e
           | Inr s' \<Rightarrow> collect_tags s' posts)
      | _ \<Rightarrow> collect_tags s posts)"

text \<open>
  \<open>len(set(res.values()))\<close> in the \<open>print\<close> after the parse: only a dict has
  \<open>values\<close>, and a set takes hashable values only.
\<close>

definition count_categories :: "json \<Rightarrow> error + pydict" where
  "count_categories res =
     (case res of
        JObj m \<Rightarrow>
          if list_all (\<lambda>(k, v). hashable v) (dict_items m) then Inr m else Inl TypeError
      | _ \<Rightarrow> Inl AttributeError)"

text \<open>\<open>{tag: tag for tag in unique_tags}\<close>; the tags are strings once the join succeeded.\<close>

definition identity_mapping :: "json list \<Rightarrow> pydict" where
  "identity_mapping ts =
     concat (map (\<lambda>t. case t of JStr s \<Rightarrow> [(s, t)] | _ \<Rightarrow> []) ts)"

text \<open>
  The set of tags is iterated twice, for the join and for the identity mapping, in the
  same order. Both handlers of the \<open>try\<close> return the identity mapping.
\<close>

definition get_unified_tags :: "'w env \<Rightarrow> 'w \<Rightarrow> pydict list \<Rightarrow> (error + pydict) \<times> 'w" where
  "get_unified_tags env w posts_with_metadata =
     (case collect_tags [] posts_with_metadata of
        Inl e \<Rightarrow> (Inl e, w)
      | Inr unique_tags \<Rightarrow>
          if unique_tags = [] then (Inr [], w)
          else
            (let tags_in_order = set_iter env unique_tags
             in case str_join (lit '','') tags_in_order of
                  Inl e \<Rightarrow> (Inl e, w)
                | Inr unique_tags_list \<Rightarrow>
                    (case ask env w unify_template (lit ''tags'') (JStr unique_tags_list) of
                       (r, w') \<Rightarrow>
                         (case (case r of Inl e \<Rightarrow> Inl e | Inr res \<Rightarrow> count_categories res) of
                            Inr res \<Rightarrow> (Inr res, w')
                          | Inl e \<Rightarrow> (Inr (identity_mapping tags_in_order), w')))))"

section \<open>\<open>process_posts\<close>\<close>

text \<open>
  The three assignments of the handler in the first loop:
  \<open>post['line_count'] = ...\<close>, \<open>post['language'] = 'English'\<close>,
  \<open>post['tags'] = ['General']\<close>.
\<close>

definition store_defaults :: "int \<Rightarrow> pydict \<Rightarrow> pydict" where
  "store_defaults n post =
     AList.update k_tags (JList [JStr (lit ''General'')])
       (AList.update k_language (JStr (lit ''English''))
         (AList.update k_line_count (JInt n) post))"

text \<open>
  The body of the first loop, for one post. \<open>post['text']\<close> raises \<open>KeyError\<close> on a
  dict without the key and \<open>TypeError\<close> on a value that is no dict; both are outside
  the inner \<open>try\<close>. When \<open>extract_metadata\<close> raises, the handler stores the three
  defaults into the post, and its \<open>cleaned_text.split\<close> can raise in turn.
\<close>

definition enrich_post :: "'w env \<Rightarrow> 'w \<Rightarrow> json \<Rightarrow> (error + pydict) \<times> 'w" where
  "enrich_post env w post =
     (case post of
        JObj d \<Rightarrow>
          (case map_of d k_text of
             None \<Rightarrow> (Inl KeyError, w)
           | Some t \<Rightarrow>
               (let cleaned_text = clean_unicode_text t;
                    post1 = AList.update k_text cleaned_text d
                in case extract_metadata env w cleaned_text of
                     (Inr metadata, w') \<Rightarrow> (Inr (dict_merge post1 metadata), w')
                   | (Inl e, w') \<Rightarrow>
                       (case line_count_of cleaned_text of
                          Inl e' \<Rightarrow> (Inl e', w')
                        | Inr n \<Rightarrow> (Inr (store_defaults n post1), w'))))
      | _ \<Rightarrow> (Inl TypeError, w))"

text \<open>The first loop: an exception of the body ends it.\<close>

fun enrich_posts :: "'w env \<Rightarrow> 'w \<Rightarrow> json list \<Rightarrow> (error + pydict list) \<times> 'w" where
  "enrich_posts env w [] = (Inr [], w)"
| "enrich_posts env w (post # posts) =
     (case enrich_post env w post of
        (Inl e, w') \<Rightarrow> (Inl e, w')
      | (Inr p, w') \<Rightarrow>
          (case enrich_posts env w' posts of
             (Inl e, w'') \<Rightarrow> (Inl e, w'')
           | (Inr ps, w'') \<Rightarrow> (Inr (p # ps), w'')))"

text \<open>\<open>unified_tags.get(tag, tag)\<close>: the keys of the mapping are strings.\<close>

definition unified_get :: "pydict \<Rightarrow> json \<Rightarrow> json" where
  "unified_get unified_tags tag =
     (case tag of
        JStr s \<Rightarrow> (case map_of unified_tags s of Some v \<Rightarrow> v | None \<Rightarrow> tag)
      | _ \<Rightarrow> tag)"

text \<open>
  \<open>{unified_tags.get(tag, tag) for tag in current_tags}\<close>: the lookup hashes the tag
  and the set hashes the result.
\<close>

fun unify_set :: "pydict \<Rightarrow> json list \<Rightarrow> json list \<Rightarrow> error + json list" where
  "unify_set unified_tags acc [] = Inr acc"
| "unify_set unified_tags acc (tag # tags) =
     (if hashable tag \<and> hashable (unified_get unified_tags tag)
      then unify_set unified_tags (set_add (unified_get unified_tags tag) acc) tags
      else Inl TypeError)"

text \<open>The body of the second loop, for one post.\<close>

definition apply_unified :: "'w env \<Rightarrow> pydict \<Rightarrow> pydict \<Rightarrow> error + pydict" where
  "apply_unified env unified_tags post =
     (let current_tags = (case map_of post k_tags of Some v \<Rightarrow> v | None \<Rightarrow> JList [])
      in case py_iter current_tags of
           Inl e \<Rightarrow> Inl e
         | Inr tags \<Rightarrow>
             (case unify_set unified_tags [] tags of
                Inl e \<Rightarrow> Inl e
              | Inr new_tags \<Rightarrow>
                  Inr (AList.update k_tags (JList (set_iter env new_tags)) post)))"

text \<open>The second loop: an exception of the body ends it.\<close>

fun apply_all :: "'w env \<Rightarrow> pydict \<Rightarrow> pydict list \<Rightarrow> error + pydict list" where
  "apply_all env unified_tags [] = Inr []"
| "apply_all env unified_tags (post # posts) =
     (case apply_unified env unified_tags post of
        Inl e \<Rightarrow> Inl e
      | Inr p \<Rightarrow>
          (case apply_all env unified_tags posts of
             Inl e \<Rightarrow> Inl e
           | Inr ps \<Rightarrow> Inr (p # ps)))"

text \<open>The call of \<open>get_unified_tags\<close> and the second loop together.\<close>

definition unify_posts :: "'w env \<Rightarrow> 'w \<Rightarrow> pydict list \<Rightarrow> (error + pydict list) \<times> 'w" where
  "unify_posts env w enriched_posts =
     (case get_unified_tags env w enriched_posts of
        (Inl e, w') \<Rightarrow> (Inl e, w')
      | (Inr unified_tags, w') \<Rightarrow> (apply_all env unified_tags enriched_posts, w'))"

text \<open>
  The whole function. Each of its three handlers returns the empty list, so the result
  is a list in every case. \<open>enumerate(posts)\<close> iterates over whatever \<open>json.load\<close>
  returned. The output is written when a path is given and is not the empty string.
\<close>

definition process_posts ::
  "'w env \<Rightarrow> 'w \<Rightarrow> pystr \<Rightarrow> pystr option \<Rightarrow> pydict list \<times> 'w" where
  "process_posts env w raw_file_path processed_file_path =
     (case read_file env w raw_file_path of
        Inl e \<Rightarrow> ([], w)
      | Inr content \<Rightarrow>
          (case json_load env content of
             Inl e \<Rightarrow> ([], w)
           | Inr posts \<Rightarrow>
               (case py_iter posts of
                  Inl e \<Rightarrow> ([], w)
                | Inr post_list \<Rightarrow>
                    (case enrich_posts env w post_list of
                       (Inl e, w1) \<Rightarrow> ([], w1)
                     | (Inr enriched_posts, w1) \<Rightarrow>
                         (case unify_posts env w1 enriched_posts of
                            (Inl e, w2) \<Rightarrow> ([], w2)
                          | (Inr final_posts, w2) \<Rightarrow>
                              (case processed_file_path of
                                 None \<Rightarrow> (final_posts, w2)
                               | Some path \<Rightarrow>
                                   if path = [] then (final_posts, w2)
                                   else
                                     (case write_json env w2 path
                                             (JList (map JObj final_posts)) of
                                        (Some e, w3) \<Rightarrow> ([], w3)
                                      | (None, w3) \<Rightarrow> (final_posts, w3))))))))"

section \<open>Records and test environments\<close>

text \<open>
  A well-formed record, as the specification has it: an object with a \<open>text\<close> field
  that is a string.
\<close>

definition well_formed :: "json \<Rightarrow> bool" where
  "well_formed post =
     (case post of
        JObj d \<Rightarrow> (case map_of d k_text of Some (JStr s) \<Rightarrow> True | _ \<Rightarrow> False)
      | _ \<Rightarrow> False)"

text \<open>
  Two notions of a run, for the statements below. The state of the world when the
  first loop reaches the post at index \<open>i\<close>: the state after the loop body has run
  on the posts before it.
\<close>

fun world_before :: "'w env \<Rightarrow> 'w \<Rightarrow> json list \<Rightarrow> nat \<Rightarrow> 'w" where
  "world_before env w posts 0 = w"
| "world_before env w [] (Suc i) = w"
| "world_before env w (post # posts) (Suc i) =
     world_before env (snd (enrich_post env w post)) posts i"

text \<open>
  The parsed answer to the request that \<open>extract_metadata\<close> makes for a post in the
  state \<open>w\<close>: the request carries the text of the post, cleaned by the loop and
  cleaned again by \<open>extract_metadata\<close>.
\<close>

definition post_answer :: "'w env \<Rightarrow> 'w \<Rightarrow> json \<Rightarrow> error + json" where
  "post_answer env w post =
     (case post of
        JObj d \<Rightarrow>
          (case map_of d k_text of
             None \<Rightarrow> Inl KeyError
           | Some t \<Rightarrow>
               fst (ask env w extract_template (lit ''post'')
                      (clean_unicode_text (clean_unicode_text t))))
      | _ \<Rightarrow> Inl TypeError)"

text \<open>
  The invariant the specification states for an output record: a \<open>line_count\<close> that
  is not null, a \<open>language\<close> that is \<open>"English"\<close> or \<open>"Hinglish"\<close>, and a \<open>tags\<close> that
  is a list with at least one element.
\<close>

definition metadata_invariant :: "pydict \<Rightarrow> bool" where
  "metadata_invariant r =
     (map_of r k_line_count \<noteq> None \<and> map_of r k_line_count \<noteq> Some JNull
      \<and> (map_of r k_language = Some (JStr (lit ''English''))
           \<or> map_of r k_language = Some (JStr (lit ''Hinglish'')))
      \<and> (\<exists>t ts. map_of r k_tags = Some (JList (t # ts))))"

text \<open>
  The same three conditions on an answer of the model: the values it gives are the
  ones the prompt asks for. (A \<open>tags\<close> that is no list is wrapped by the program, so
  only the empty list is excluded.)
\<close>

definition response_as_asked :: "pydict \<Rightarrow> bool" where
  "response_as_asked m =
     (map_of m k_line_count \<noteq> Some JNull
      \<and> (map_of m k_language = Some (JStr (lit ''English''))
           \<or> map_of m k_language = Some (JStr (lit ''Hinglish'')))
      \<and> map_of m k_tags \<noteq> Some (JList []))"

text \<open>
  A deterministic stand-in for the world, for the concrete runs below: every call of
  the model gives \<open>reply\<close>, every parse gives \<open>parsed\<close>, sets are iterated in insertion
  order, \<open>files\<close> lists the files by path and \<open>docs\<close> the texts that are JSON, with
  their values. The state of this world is the number of calls of the model so far
  and the list of the files written so far, each with its path and its value.
\<close>

type_synonym test_world = "nat \<times> (pystr \<times> json) list"

definition canned_env ::
  "(pystr \<times> pystr) list \<Rightarrow> (pystr \<times> json) list \<Rightarrow> error + pystr \<Rightarrow> error + json \<Rightarrow> test_world env" where
  "canned_env files docs reply parsed =
     \<lparr> invoke = (\<lambda>w template var v. (reply, (Suc (fst w), snd w))),
       parse = (\<lambda>content. parsed),
       set_iter = (\<lambda>xs. xs),
       read_file = (\<lambda>w path. case map_of files path of
                                None \<Rightarrow> Inl FileNotFoundError
                              | Some content \<Rightarrow> Inr content),
       json_load = (\<lambda>content. case map_of docs content of
                                None \<Rightarrow> Inl JSONDecodeError
                              | Some v \<Rightarrow> Inr v),
       write_json = (\<lambda>w path v. (None, (fst w, snd w @ [(path, v)]))) \<rparr>"

text \<open>
  A second stand-in, whose model follows a script: the call number \<open>n\<close> (counted from
  0 in the state) gives the \<open>n\<close>-th element of \<open>replies\<close>, and raises when the
  script is over. The parser knows the texts listed in \<open>answers\<close>, with their
  values, and raises \<open>OutputParserException\<close> on any other text.
\<close>

definition scripted_env ::
  "(pystr \<times> pystr) list \<Rightarrow> (pystr \<times> json) list \<Rightarrow> (error + pystr) list \<Rightarrow>
   (pystr \<times> json) list \<Rightarrow> test_world env" where
  "scripted_env files docs replies answers =
     \<lparr> invoke = (\<lambda>w template var v.
         (if fst w < length replies then replies ! fst w else Inl OtherException,
          (Suc (fst w), snd w))),
       parse = (\<lambda>content. case map_of answers content of
                            None \<Rightarrow> Inl OutputParserException
                          | Some v \<Rightarrow> Inr v),
       set_iter = (\<lambda>xs. xs),
       read_file = (\<lambda>w path. case map_of files path of
                                None \<Rightarrow> Inl FileNotFoundError
                              | Some content \<Rightarrow> Inr content),
       json_load = (\<lambda>content. case map_of docs content of
                                None \<Rightarrow> Inl JSONDecodeError
                              | Some v \<Rightarrow> Inr v),
       write_json = (\<lambda>w path v. (None, (fst w, snd w @ [(path, v)]))) \<rparr>"



text \<open>The mapping of the specification's merge scenario.\<close>

definition job_mapping :: pydict where
  "job_mapping =
     [(lit ''Jobseekers'', JStr (lit ''Job Search'')),
      (lit ''Job Hunting'', JStr (lit ''Job Search'')),
      (lit ''Motivation'', JStr (lit ''Motivation''))]"

section \<open>Lemmas about the string operations\<close>

declare str_replace.simps [simp del]
declare utf8_decode.simps [simp del]

lemma str_replace_pair_Nil: "str_replace [a, b] new [] = []"
  by (simp add: str_replace.simps)

lemma str_replace_pair_hit:
  "str_replace [a, b] new (a # b # xs) = new @ str_replace [a, b] new xs"
  by (subst str_replace.simps) simp

lemma str_replace_pair_miss:
  "\<not> prefix [a, b] (x # xs) \<Longrightarrow> str_replace [a, b] new (x # xs) = x # str_replace [a, b] new xs"
  by (subst str_replace.simps) (simp del: Cons_prefix_Cons)

lemma prefix_pair: "prefix [a, b] s \<longleftrightarrow> (\<exists>ys. s = a # b # ys)"
  by (cases s; cases "tl s") (auto simp: prefix_def)

lemma sublist_pair_Cons:
  "sublist [a, b] (x # xs) \<longleftrightarrow> prefix [a, b] (x # xs) \<or> sublist [a, b] xs"
  by (rule sublist_Cons_right)

lemma str_replace_pair_id:
  "\<not> sublist [a, b] s \<Longrightarrow> str_replace [a, b] new s = s"
proof (induction s)
  case Nil
  show ?case by (rule str_replace_pair_Nil)
next
  case (Cons x xs)
  then show ?case
    by (simp add: sublist_pair_Cons str_replace_pair_miss)
qed




lemma set_str_replace_pair:
  "set (str_replace [a, b] [c] s) \<subseteq> insert c (set s)"
proof (induction s rule: length_induct)
  case (1 s)
  show ?case
  proof (cases s)
    case Nil
    then show ?thesis by (simp add: str_replace_pair_Nil)
  next
    case (Cons x xs)
    show ?thesis
    proof (cases "prefix [a, b] s")
      case True
      then obtain ys where s: "s = a # b # ys" by (auto simp: prefix_pair)
      have "set (str_replace [a, b] [c] ys) \<subseteq> insert c (set ys)"
        using 1 s by simp
      with s show ?thesis
        by (auto simp: str_replace_pair_hit)
    next
      case False
      have "set (str_replace [a, b] [c] xs) \<subseteq> insert c (set xs)"
        using 1 Cons by simp
      with False Cons show ?thesis
        by (auto simp: str_replace_pair_miss)
    qed
  qed
qed

lemma utf8_encode_cp_Some_iff:
  "utf8_encode_cp c \<noteq> None \<longleftrightarrow> c < 0x110000 \<and> \<not> is_surrogate c"
  by (auto simp: utf8_encode_cp_def is_surrogate_def)

lemma recompose3:
  fixes c :: nat
  assumes "d = q * 64 + r1" "c = d * 64 + r0"
  shows "q * 4096 + r1 * 64 + r0 = c"
  using assms by simp

lemma dm3: "(c::nat) div 4096 * 4096 + c div 64 mod 64 * 64 + c mod 64 = c"
proof -
  have a: "c div 4096 = c div 64 div 64" by (simp add: div_mult2_eq)
  have b: "c div 64 = c div 64 div 64 * 64 + c div 64 mod 64" by simp
  have c: "c = c div 64 * 64 + c mod 64" by simp
  show ?thesis unfolding a by (rule recompose3 [OF b c])
qed

lemma recompose4:
  fixes c :: nat
  assumes "d = q * 64 + r2" "q' * 4096 + r1 * 64 + r0 = c" "q' = d"
  shows "q * 262144 + r2 * 4096 + r1 * 64 + r0 = c"
  using assms by simp

lemma dm4: "(c::nat) div 262144 * 262144 + c div 4096 mod 64 * 4096 + c div 64 mod 64 * 64 + c mod 64 = c"
proof -
  have a: "c div 262144 = c div 4096 div 64" by (simp add: div_mult2_eq)
  have b: "c div 4096 = c div 4096 div 64 * 64 + c div 4096 mod 64" by simp
  show ?thesis unfolding a by (rule recompose4 [OF b dm3 refl])
qed

lemma div_bound: "(c::nat) < k * n \<Longrightarrow> c div n < k"
  by (simp add: less_mult_imp_div_less)

lemma div_lower: "0 < n \<Longrightarrow> k * n \<le> (c::nat) \<Longrightarrow> k \<le> c div n"
  by (simp add: less_eq_div_iff_mult_less_eq)

lemma decode_one1: "c < 0x80 \<Longrightarrow> utf8_decode_one (c # r) = Some (c, 0)"
  by (simp add: utf8_decode_one_def)

lemma decode_one2:
  "2 \<le> q \<Longrightarrow> q < 32 \<Longrightarrow> r0 < 64 \<Longrightarrow>
   utf8_decode_one ((0xC0 + q) # (0x80 + r0) # r) = Some (q * 64 + r0, 1)"
  by (simp add: utf8_decode_one_def is_cont_def)

lemma decode_one3:
  "q < 16 \<Longrightarrow> r1 < 64 \<Longrightarrow> r0 < 64 \<Longrightarrow> 0x800 \<le> q * 4096 + r1 * 64 + r0 \<Longrightarrow>
   \<not> is_surrogate (q * 4096 + r1 * 64 + r0) \<Longrightarrow>
   utf8_decode_one ((0xE0 + q) # (0x80 + r1) # (0x80 + r0) # r) = Some (q * 4096 + r1 * 64 + r0, 2)"
  by (simp add: utf8_decode_one_def is_cont_def Let_def)

lemma decode_one4:
  "q < 5 \<Longrightarrow> r2 < 64 \<Longrightarrow> r1 < 64 \<Longrightarrow> r0 < 64 \<Longrightarrow>
   0x10000 \<le> q * 262144 + r2 * 4096 + r1 * 64 + r0 \<Longrightarrow>
   q * 262144 + r2 * 4096 + r1 * 64 + r0 < 0x110000 \<Longrightarrow>
   utf8_decode_one ((0xF0 + q) # (0x80 + r2) # (0x80 + r1) # (0x80 + r0) # r)
     = Some (q * 262144 + r2 * 4096 + r1 * 64 + r0, 3)"
  by (simp add: utf8_decode_one_def is_cont_def Let_def)

lemma dm2: "(c::nat) div 64 * 64 + c mod 64 = c" by simp

lemma utf8_decode_one_encode:
  assumes "utf8_encode_cp c = Some e"
  shows "utf8_decode_one (e @ r) = Some (c, length e - 1) \<and> e \<noteq> []"
proof -
  consider (a) "c < 0x80"
    | (b) "0x80 \<le> c" "c < 0x800"
    | (c) "0x800 \<le> c" "c < 0x10000" "\<not> is_surrogate c"
    | (d) "0x10000 \<le> c" "c < 0x110000"
    using assms unfolding utf8_encode_cp_def by (simp split: if_splits)
  then show ?thesis
  proof cases
    case a
    with assms have "e = [c]" by (simp add: utf8_encode_cp_def)
    with a show ?thesis by (simp add: decode_one1)
  next
    case b
    with assms have e: "e = [0xC0 + c div 64, 0x80 + c mod 64]"
      by (simp add: utf8_encode_cp_def)
    have "2 \<le> c div 64" using b(1) by (intro div_lower) simp_all
    moreover have "c div 64 < 32" using b(2) by (intro div_bound) simp
    moreover have "c mod 64 < 64" by simp
    ultimately have "utf8_decode_one ((0xC0 + c div 64) # (0x80 + c mod 64) # r)
        = Some (c div 64 * 64 + c mod 64, 1)"
      by (rule decode_one2)
    then show ?thesis unfolding e dm2 by simp
  next
    case c
    with assms have e: "e = [0xE0 + c div 4096, 0x80 + (c div 64) mod 64, 0x80 + c mod 64]"
      by (simp add: utf8_encode_cp_def)
    have "c div 4096 < 16" using c(2) by (intro div_bound) simp
    moreover have "c div 64 mod 64 < 64" "c mod 64 < 64" by simp_all
    moreover have "0x800 \<le> c div 4096 * 4096 + c div 64 mod 64 * 64 + c mod 64"
      "\<not> is_surrogate (c div 4096 * 4096 + c div 64 mod 64 * 64 + c mod 64)"
      unfolding dm3 using c by simp_all
    ultimately have "utf8_decode_one ((0xE0 + c div 4096) # (0x80 + c div 64 mod 64) # (0x80 + c mod 64) # r)
        = Some (c div 4096 * 4096 + c div 64 mod 64 * 64 + c mod 64, 2)"
      by (rule decode_one3)
    then show ?thesis unfolding e dm3 by simp
  next
    case d
    then have "\<not> is_surrogate c" by (simp add: is_surrogate_def)
    with d assms have e: "e = [0xF0 + c div 262144, 0x80 + (c div 4096) mod 64,
                  0x80 + (c div 64) mod 64, 0x80 + c mod 64]"
      by (simp add: utf8_encode_cp_def)
    have "c div 262144 < 5" using d(2) by (intro div_bound) simp
    moreover have "c div 4096 mod 64 < 64" "c div 64 mod 64 < 64" "c mod 64 < 64" by simp_all
    moreover have "0x10000 \<le> c div 262144 * 262144 + c div 4096 mod 64 * 4096 + c div 64 mod 64 * 64 + c mod 64"
      "c div 262144 * 262144 + c div 4096 mod 64 * 4096 + c div 64 mod 64 * 64 + c mod 64 < 0x110000"
      unfolding dm4 using d by simp_all
    ultimately have "utf8_decode_one ((0xF0 + c div 262144) # (0x80 + c div 4096 mod 64)
         # (0x80 + c div 64 mod 64) # (0x80 + c mod 64) # r)
        = Some (c div 262144 * 262144 + c div 4096 mod 64 * 4096 + c div 64 mod 64 * 64 + c mod 64, 3)"
      by (rule decode_one4)
    then show ?thesis unfolding e dm4 by simp
  qed
qed

lemma utf8_decode_append:
  assumes "utf8_encode_cp c = Some e"
  shows "utf8_decode (e @ r) =
    (case utf8_decode r of Inl x \<Rightarrow> Inl x | Inr cs \<Rightarrow> Inr (c # cs))"
proof -
  from utf8_decode_one_encode [OF assms, of r]
  have one: "utf8_decode_one (e @ r) = Some (c, length e - 1)" and ne: "e \<noteq> []"
    by simp_all
  from ne have "drop (Suc (length e - 1)) (e @ r) = r" by (cases e) simp_all
  with one ne show ?thesis
    by (subst utf8_decode.simps) simp
qed

lemma utf8_round_trip:
  "utf8_decode (utf8_encode_ignore s) = Inr (filter (\<lambda>c. utf8_encode_cp c \<noteq> None) s)"
proof (induction s)
  case Nil
  show ?case by (simp add: utf8_decode.simps)
next
  case (Cons c cs)
  show ?case
  proof (cases "utf8_encode_cp c")
    case None
    with Cons show ?thesis by simp
  next
    case (Some e)
    with Cons show ?thesis by (simp add: utf8_decode_append)
  qed
qed

lemma clean_try_eq:
  "clean_try s = (None, filter (\<lambda>c. utf8_encode_cp c \<noteq> None)
     (str_replace backslash_t [tab] (str_replace backslash_n [newline] (sub_surrogates s))))"
  by (simp add: clean_try_def Let_def utf8_round_trip)

lemma set_clean_str:
  "set (str_replace backslash_t [tab] (str_replace backslash_n [newline] (sub_surrogates s)))
     \<subseteq> insert tab (insert newline (set (sub_surrogates s)))"
  using set_str_replace_pair [of "0x5C" "0x74" tab "str_replace backslash_n [newline] (sub_surrogates s)"]
    set_str_replace_pair [of "0x5C" "0x6E" newline "sub_surrogates s"]
  unfolding backslash_t_def backslash_n_def by blast

lemma encodable_tab_newline:
  "utf8_encode_cp tab \<noteq> None" "utf8_encode_cp newline \<noteq> None"
  by (simp_all add: utf8_encode_cp_def tab_def newline_def)

lemma encodable_sub_surrogates:
  "valid_str s \<Longrightarrow> c \<in> set (sub_surrogates s) \<Longrightarrow> utf8_encode_cp c \<noteq> None"
  unfolding utf8_encode_cp_Some_iff
  by (simp add: sub_surrogates_def valid_str_def list_all_iff)

lemma clean_try_valid:
  assumes "valid_str s"
  shows "clean_try s =
    (None, str_replace backslash_t [tab] (str_replace backslash_n [newline] (sub_surrogates s)))"
proof -
  let ?r = "str_replace backslash_t [tab] (str_replace backslash_n [newline] (sub_surrogates s))"
  have "\<forall>c\<in>set ?r. utf8_encode_cp c \<noteq> None"
    using set_clean_str [of s] encodable_tab_newline encodable_sub_surrogates [OF assms]
    by blast
  then have "filter (\<lambda>c. utf8_encode_cp c \<noteq> None) ?r = ?r"
    by (simp add: filter_id_conv)
  then show ?thesis by (simp add: clean_try_eq)
qed




lemma clean_try_fixed:
  assumes "valid_str t" "sub_surrogates t = t"
    "\<not> sublist backslash_n t" "\<not> sublist backslash_t t"
  shows "clean_try t = (None, t)"
proof -
  have "str_replace backslash_n [newline] t = t"
    using assms(3) unfolding backslash_n_def by (rule str_replace_pair_id)
  moreover have "str_replace backslash_t [tab] t = t"
    using assms(4) unfolding backslash_t_def by (rule str_replace_pair_id)
  ultimately show ?thesis
    using assms(1,2) by (simp add: clean_try_valid)
qed



lemma length_split_acc: "length (split_acc sep acc s) = count_list s sep + 1"
  by (induction s arbitrary: acc) simp_all

lemma length_str_split: "length (str_split sep s) = count_list s sep + 1"
  by (simp add: str_split_def length_split_acc)


section \<open>The sanitizer's claims\<close>

lemma clean_unicode_text_fixed:
  assumes "valid_str s" "sub_surrogates s = s"
    "\<not> sublist backslash_n s" "\<not> sublist backslash_t s"
  shows "clean_unicode_text (JStr s) = JStr s"
  using clean_try_fixed [OF assms] by (simp add: clean_unicode_text_def)

lemma ascii_valid: "list_all (\<lambda>c. c < 0x80) s \<Longrightarrow> valid_str s"
  by (induction s) (simp_all add: valid_str_def)

lemma ascii_sub_surrogates: "list_all (\<lambda>c. c < 0x80) s \<Longrightarrow> sub_surrogates s = s"
  by (induction s) (simp_all add: sub_surrogates_def is_surrogate_def)

lemma clean_unicode_text_ascii:
  assumes "list_all (\<lambda>c. c < 0x80) s"
    and "\<not> sublist backslash_n s" and "\<not> sublist backslash_t s"
  shows "clean_unicode_text (JStr s) = JStr s"
  using assms by (intro clean_unicode_text_fixed ascii_valid ascii_sub_surrogates)

text \<open>
  C7. For every string, \<open>clean_unicode_text\<close> returns a string: the value of \<open>text\<close>
  at the end of the \<open>try\<close> body when the body raises nothing, and otherwise what the
  handler makes of the value \<open>text\<close> had when the exception was raised, with the
  code points above \<open>0xFFFF\<close> replaced by spaces. Every function involved is total,
  so the call terminates, and no exception is left uncaught.
\<close>

theorem clean_unicode_text_returns_str:
  "\<exists>r. clean_unicode_text (JStr s) = JStr r
     \<and> (case clean_try s of (None, t) \<Rightarrow> r = t | (Some e, t) \<Rightarrow> r = clean_fallback t)"
  by (simp add: clean_unicode_text_def split: prod.splits option.splits)

text \<open>
  C8. A string of ASCII characters that contains neither a backslash followed by \<open>n\<close>
  nor a backslash followed by \<open>t\<close> is returned unchanged.
\<close>

theorem clean_unicode_text_clean_ascii:
  assumes "list_all (\<lambda>c. c < 0x80) s"
    and "\<not> sublist backslash_n s" and "\<not> sublist backslash_t s"
  shows "clean_unicode_text (JStr s) = JStr s"
  using assms by (rule clean_unicode_text_ascii)

theorem clean_unicode_text_clean_ascii_witness:
  "list_all (\<lambda>c. c < 0x80) (lit ''Hello, world'')
   \<and> \<not> sublist backslash_n (lit ''Hello, world'')
   \<and> \<not> sublist backslash_t (lit ''Hello, world'')
   \<and> clean_unicode_text (JStr (lit ''Hello, world'')) = JStr (lit ''Hello, world'')"
proof -
  have a: "list_all (\<lambda>c. c < 0x80) (lit ''Hello, world'')"
    by (simp add: lit_def)
  have n: "\<not> sublist backslash_n (lit ''Hello, world'')"
    by (simp add: lit_def backslash_n_def sublist_Cons_right)
  have t: "\<not> sublist backslash_t (lit ''Hello, world'')"
    by (simp add: lit_def backslash_t_def sublist_Cons_right)
  from clean_unicode_text_clean_ascii [OF a n t] a n t show ?thesis by simp
qed

text \<open>
  C10. A value that is not a string (\<open>None\<close>, a number, a list, ...) is returned as
  it is.
\<close>

theorem clean_unicode_text_non_str:
  "\<not> is_str v \<Longrightarrow> clean_unicode_text v = v"
  by (cases v) (simp_all add: clean_unicode_text_def)

theorem clean_unicode_text_non_str_witness:
  "\<not> is_str JNull \<and> clean_unicode_text JNull = JNull
   \<and> \<not> is_str (JInt 42) \<and> clean_unicode_text (JInt 42) = JInt 42"
  using clean_unicode_text_non_str [of JNull] clean_unicode_text_non_str [of "JInt 42"]
  by simp

section \<open>Lemmas about dicts and the response check\<close>

lemma key_neq [simp]:
  "k_text \<noteq> k_line_count" "k_text \<noteq> k_language" "k_text \<noteq> k_tags"
  "k_line_count \<noteq> k_text" "k_line_count \<noteq> k_language" "k_line_count \<noteq> k_tags"
  "k_language \<noteq> k_text" "k_language \<noteq> k_line_count" "k_language \<noteq> k_tags"
  "k_tags \<noteq> k_text" "k_tags \<noteq> k_line_count" "k_tags \<noteq> k_language"
  by (simp_all add: k_text_def k_line_count_def k_language_def k_tags_def lit_def)

lemma map_of_fold_update:
  "distinct (map fst xs) \<Longrightarrow>
   map_of (fold (\<lambda>(k, v). AList.update k v) xs d) = map_of d ++ map_of xs"
proof (induction xs arbitrary: d)
  case Nil
  show ?case by simp
next
  case (Cons x xs)
  obtain k v where x: "x = (k, v)" by (cases x)
  from Cons.prems x have k: "map_of xs k = None"
    by (simp add: map_of_eq_None_iff)
  have "map_of (fold (\<lambda>(k, v). AList.update k v) (x # xs) d)
      = map_of (AList.update k v d) ++ map_of xs"
    using Cons x by simp
  also have "\<dots> = map_of d ++ map_of (x # xs)"
    using k by (auto simp: x update_conv' map_add_def fun_eq_iff split: option.splits)
  finally show ?case .
qed

lemma map_of_dict_merge: "map_of (dict_merge d m) = map_of d ++ map_of m"
  by (simp add: dict_merge_def dict_items_def map_of_fold_update map_of_clearjunk)

lemma dict_merge_default:
  "dict_merge d (default_metadata n) =
     AList.update k_tags (JList [JStr (lit ''General'')])
       (AList.update k_language (JStr (lit ''English''))
         (AList.update k_line_count (JInt n) d))"
  by (simp add: dict_merge_def dict_items_def default_metadata_def)

lemma update_absent: "map_of d k = None \<Longrightarrow> AList.update k v d = d @ [(k, v)]"
  by (induction d) (auto split: if_splits)

lemma all_keys_in_obj:
  "all_keys_in (JObj m) ks = Inr (list_all (\<lambda>k. map_of m k \<noteq> None) ks)"
  by (induction ks) simp_all

lemma all_keys_in_not_parser_error: "all_keys_in res ks \<noteq> Inl OutputParserException"
proof (induction ks)
  case Nil
  show ?case by simp
next
  case (Cons k ks)
  then show ?case
    by (cases res) (simp_all split: sum.splits)
qed

lemma validate_response_Inr:
  assumes "validate_response res = Inr m'"
  obtains m t where "res = JObj m"
    and "map_of m k_line_count \<noteq> None" and "map_of m k_language \<noteq> None"
    and "map_of m k_tags = Some t"
    and "m' = (if is_list t then m
               else AList.update k_tags
                 (if truthy t then JList [t] else JList [JStr (lit ''General'')]) m)"
proof -
  from assms obtain m where res: "res = JObj m"
    by (cases res) (auto simp: validate_response_def split: sum.splits bool.splits)
  from assms res have keys: "list_all (\<lambda>k. map_of m k \<noteq> None) required_keys"
    by (auto simp: validate_response_def all_keys_in_obj split: if_splits bool.splits)
  then obtain t where t: "map_of m k_tags = Some t"
    by (auto simp: required_keys_def)
  from assms res keys t
  have "m' = (if is_list t then m
               else AList.update k_tags
                 (if truthy t then JList [t] else JList [JStr (lit ''General'')]) m)"
    by (auto simp: validate_response_def all_keys_in_obj split: if_splits)
  with res keys t that show thesis
    by (auto simp: required_keys_def)
qed

lemma validate_response_not_parser_error:
  "validate_response res \<noteq> Inl OutputParserException"
  using all_keys_in_not_parser_error [of res required_keys]
  by (auto simp: validate_response_def split: sum.splits bool.splits json.splits option.splits)

lemma validate_response_missing_key:
  assumes "k \<in> set required_keys" "map_of m k = None"
  shows "validate_response (JObj m) = Inl ValueError"
proof -
  from assms have "\<not> list_all (\<lambda>k. map_of m k \<noteq> None) required_keys"
    by (auto simp: list_all_iff)
  then show ?thesis
    by (simp add: validate_response_def all_keys_in_obj)
qed


lemma validated_tags_list:
  assumes "validate_response res = Inr m'"
  shows "\<exists>ts. map_of m' k_tags = Some (JList ts)"
proof -
  from assms obtain m t where "map_of m k_tags = Some t"
    and "m' = (if is_list t then m
               else AList.update k_tags
                 (if truthy t then JList [t] else JList [JStr (lit ''General'')]) m)"
    by (rule validate_response_Inr)
  then show ?thesis
    by (cases t) (auto simp: update_conv')
qed

lemma validated_other_keys:
  assumes "validate_response (JObj m) = Inr m'" "k \<noteq> k_tags"
  shows "map_of m' k = map_of m k"
  using assms by (elim validate_response_Inr) (auto simp: update_conv')

section \<open>Lemmas about the enrichment of one post\<close>

lemma dict_merge_defaults: "dict_merge d (default_metadata n) = store_defaults n d"
  by (simp add: dict_merge_default store_defaults_def)

lemma clean_unicode_text_is_str: "\<exists>r. clean_unicode_text (JStr s) = JStr r"
  by (simp add: clean_unicode_text_def split: prod.splits option.splits)

lemma line_count_of_str:
  "line_count_of (JStr t) = Inr (int (count_list t newline) + 1)"
  by (simp add: length_str_split)

text \<open>
  What \<open>extract_metadata\<close> returns for a string \<open>t\<close> whose second cleaning is \<open>t'\<close>,
  from the answer to the request.
\<close>

lemma extract_metadata_str:
  assumes "clean_unicode_text (JStr t) = JStr t'"
    and "ask env w extract_template (lit ''post'') (JStr t') = (r, w')"
  shows "extract_metadata env w (JStr t) =
    (case (case r of Inl e \<Rightarrow> Inl e | Inr res \<Rightarrow> validate_response res) of
       Inr m \<Rightarrow> (Inr m, w')
     | Inl e \<Rightarrow>
         if e = OutputParserException then (Inl OutputParserException, w')
         else (Inr (default_metadata (int (count_list t' newline) + 1)), w'))"
  using assms
  by (simp add: extract_metadata_def line_count_of_str del: line_count_of.simps
      split: sum.splits)

text \<open>
  The result of the loop body for a post whose text is a string, in the three cases:
  metadata accepted, \<open>OutputParserException\<close> handled by the loop, any other failure
  handled inside \<open>extract_metadata\<close>.
\<close>

lemma enrich_post_str:
  assumes "map_of d k_text = Some (JStr s)"
    and "clean_unicode_text (JStr s) = JStr t"
    and "clean_unicode_text (JStr t) = JStr t'"
    and "ask env w extract_template (lit ''post'') (JStr t') = (r, w')"
  shows "enrich_post env w (JObj d) =
    (case (case r of Inl e \<Rightarrow> Inl e | Inr res \<Rightarrow> validate_response res) of
       Inr m \<Rightarrow> (Inr (dict_merge (AList.update k_text (JStr t) d) m), w')
     | Inl e \<Rightarrow>
         (Inr (store_defaults
                (int (count_list (if e = OutputParserException then t else t') newline) + 1)
                (AList.update k_text (JStr t) d)), w'))"
  using assms(1,2) extract_metadata_str [OF assms(3,4)]
  by (simp add: enrich_post_def Let_def line_count_of_str dict_merge_defaults
      del: line_count_of.simps split: sum.splits)

lemma well_formed_iff:
  "well_formed post \<longleftrightarrow> (\<exists>d s. post = JObj d \<and> map_of d k_text = Some (JStr s))"
proof (cases post)
  case (JObj d)
  show ?thesis
  proof (cases "map_of d k_text")
    case None
    with JObj show ?thesis by (simp add: well_formed_def)
  next
    case (Some v)
    with JObj show ?thesis by (cases v) (simp_all add: well_formed_def)
  qed
qed (simp_all add: well_formed_def)

lemma enrich_post_well_formed:
  assumes "well_formed post"
  shows "\<exists>r w'. enrich_post env w post = (Inr r, w')"
proof -
  from assms obtain d s where post: "post = JObj d" and tx: "map_of d k_text = Some (JStr s)"
    by (auto simp: well_formed_iff)
  obtain t where t: "clean_unicode_text (JStr s) = JStr t"
    using clean_unicode_text_is_str by blast
  obtain t' where t': "clean_unicode_text (JStr t) = JStr t'"
    using clean_unicode_text_is_str by blast
  obtain r w' where a: "ask env w extract_template (lit ''post'') (JStr t') = (r, w')"
    by (cases "ask env w extract_template (lit ''post'') (JStr t')")
  show ?thesis
    unfolding post enrich_post_str [OF tx t t' a]
    by (simp split: sum.splits)
qed

lemma store_defaults_lookup:
  "map_of (store_defaults n d) k_line_count = Some (JInt n)"
  "map_of (store_defaults n d) k_language = Some (JStr (lit ''English''))"
  "map_of (store_defaults n d) k_tags = Some (JList [JStr (lit ''General'')])"
  "k \<noteq> k_line_count \<Longrightarrow> k \<noteq> k_language \<Longrightarrow> k \<noteq> k_tags \<Longrightarrow>
     map_of (store_defaults n d) k = map_of d k"
  by (simp_all add: store_defaults_def update_conv')

section \<open>Lemmas about the requests and the test environments\<close>

lemma ask_unfold:
  "invoke env w template var v = (reply, w') \<Longrightarrow>
   ask env w template var v =
     (case reply of Inl e \<Rightarrow> Inl e | Inr content \<Rightarrow> parse env content, w')"
  by (simp add: ask_def split: sum.splits)

lemma ask_Inr:
  assumes "ask env w template var v = (Inr res, w')"
  shows "\<exists>c. parse env c = Inr res"
  using assms by (auto simp: ask_def split: prod.splits sum.splits)


lemma canned_ask:
  "ask (canned_env files docs (Inr content) parsed) w template var v
     = (parsed, (Suc (fst w), snd w))"
  by (simp add: ask_def canned_env_def)

lemma canned_ask_raises:
  "ask (canned_env files docs (Inl e) parsed) w template var v
     = (Inl e, (Suc (fst w), snd w))"
  by (simp add: ask_def canned_env_def)

lemma canned_iter_ok: "iter_ok (canned_env files docs reply parsed)"
  by (simp add: iter_ok_def canned_env_def)




lemma post_answer_obj:
  "map_of d k_text = Some t \<Longrightarrow>
   post_answer env w (JObj d) =
     fst (ask env w extract_template (lit ''post'')
            (clean_unicode_text (clean_unicode_text t)))"
  by (simp add: post_answer_def)





text \<open>Every record the loop body yields has a list in its \<open>tags\<close> field.\<close>

lemma extract_metadata_tags:
  assumes "extract_metadata env w v = (Inr md, w')"
  shows "\<exists>ts. map_of md k_tags = Some (JList ts)"
proof -
  obtain r0 w1
    where a: "ask env w extract_template (lit ''post'') (clean_unicode_text v) = (r0, w1)"
    by (cases "ask env w extract_template (lit ''post'') (clean_unicode_text v)")
  show ?thesis
  proof (cases "case r0 of Inl e \<Rightarrow> Inl e | Inr res \<Rightarrow> validate_response res")
    case (Inl e)
    with assms a obtain n where "md = default_metadata n"
      by (auto simp: extract_metadata_def Let_def split: if_splits sum.splits)
    then show ?thesis by (simp add: default_metadata_def)
  next
    case (Inr m')
    then obtain res where res: "r0 = Inr res" and v: "validate_response res = Inr m'"
      by (cases r0) simp_all
    from assms a res v have "md = m'"
      by (simp add: extract_metadata_def Let_def)
    with validated_tags_list [OF v] show ?thesis by simp
  qed
qed

lemma enrich_post_tags:
  assumes "enrich_post env w post = (Inr r, w')"
  shows "\<exists>ts. map_of r k_tags = Some (JList ts)"
proof -
  from assms obtain d where post: "post = JObj d"
    by (cases post) (simp_all add: enrich_post_def)
  from assms post obtain t where t: "map_of d k_text = Some t"
    by (cases "map_of d k_text") (simp_all add: enrich_post_def)
  let ?post1 = "AList.update k_text (clean_unicode_text t) d"
  obtain x w1 where x: "extract_metadata env w (clean_unicode_text t) = (x, w1)"
    by (cases "extract_metadata env w (clean_unicode_text t)")
  show ?thesis
  proof (cases x)
    case (Inl e)
    with assms post t x obtain n where "r = store_defaults n ?post1"
      by (auto simp: enrich_post_def Let_def split: sum.splits)
    then show ?thesis by (simp add: store_defaults_lookup)
  next
    case (Inr md)
    with assms post t x have r: "r = dict_merge ?post1 md"
      by (simp add: enrich_post_def Let_def)
    from extract_metadata_tags [OF x [unfolded Inr]] obtain ts
      where "map_of md k_tags = Some (JList ts)" by blast
    with r show ?thesis by (simp add: map_of_dict_merge)
  qed
qed

lemma enrich_posts_tags:
  assumes "enrich_posts env w posts = (Inr rs, w1)"
  shows "\<forall>r\<in>set rs. \<exists>ts. map_of r k_tags = Some (JList ts)"
  using assms
proof (induction posts arbitrary: w rs)
  case Nil
  then show ?case by simp
next
  case (Cons post posts)
  then obtain r w' rs' where r: "enrich_post env w post = (Inr r, w')"
    and rs': "enrich_posts env w' posts = (Inr rs', w1)" and rs: "rs = r # rs'"
    by (auto split: prod.splits sum.splits)
  from enrich_post_tags [OF r] Cons.IH [OF rs'] rs show ?case by simp
qed

lemma scripted_ask:
  assumes "fst w < length replies" and "replies ! fst w = Inr content"
  shows "ask (scripted_env files docs replies answers) w template var v =
    (case map_of answers content of None \<Rightarrow> Inl OutputParserException | Some a \<Rightarrow> Inr a,
     (Suc (fst w), snd w))"
  using assms by (simp add: ask_def scripted_env_def)

lemma scripted_ask_raises:
  assumes "fst w < length replies" and "replies ! fst w = Inl e"
  shows "ask (scripted_env files docs replies answers) w template var v =
    (Inl e, (Suc (fst w), snd w))"
  using assms by (simp add: ask_def scripted_env_def)

lemma clean_Bonjour:
  "clean_unicode_text (JStr (lit ''Bonjour'')) = JStr (lit ''Bonjour'')"
  by (rule clean_unicode_text_ascii)
    (simp_all add: lit_def backslash_n_def backslash_t_def sublist_Cons_right)

lemma clean_Hello:
  "clean_unicode_text (JStr (lit ''Hello'')) = JStr (lit ''Hello'')"
  by (rule clean_unicode_text_ascii)
    (simp_all add: lit_def backslash_n_def backslash_t_def sublist_Cons_right)

lemma clean_Hi:
  "clean_unicode_text (JStr (lit ''Hi'')) = JStr (lit ''Hi'')"
  by (rule clean_unicode_text_ascii)
    (simp_all add: lit_def backslash_n_def backslash_t_def sublist_Cons_right)




section \<open>Every well-formed record is enriched\<close>

lemma store_defaults_invariant: "metadata_invariant (store_defaults n d)"
  by (simp add: metadata_invariant_def store_defaults_lookup)

lemma validate_response_keys:
  assumes "map_of m k_line_count \<noteq> None" "map_of m k_language \<noteq> None"
    "map_of m k_tags \<noteq> None"
  shows "\<exists>m'. validate_response (JObj m) = Inr m'"
  using assms
  by (auto simp: validate_response_def all_keys_in_obj required_keys_def)

lemma validated_fields:
  assumes "validate_response res = Inr m'"
  shows "map_of (dict_merge d m') k_line_count \<noteq> None"
    and "map_of (dict_merge d m') k_language \<noteq> None"
    and "\<exists>ts. map_of (dict_merge d m') k_tags = Some (JList ts)"
proof -
  from assms obtain m t where m: "res = JObj m"
    "map_of m k_line_count \<noteq> None" "map_of m k_language \<noteq> None"
    by (rule validate_response_Inr)
  from assms m(1) have same: "map_of m' k = map_of m k" if "k \<noteq> k_tags" for k
    using that by (simp add: validated_other_keys)
  from m same show "map_of (dict_merge d m') k_line_count \<noteq> None"
    by (auto simp: map_of_dict_merge map_add_def split: option.splits)
  from m same show "map_of (dict_merge d m') k_language \<noteq> None"
    by (auto simp: map_of_dict_merge map_add_def split: option.splits)
  from validated_tags_list [OF assms]
  show "\<exists>ts. map_of (dict_merge d m') k_tags = Some (JList ts)"
    by (auto simp: map_of_dict_merge map_add_def)
qed

text \<open>
  An accepted answer decides the invariant of the record: the merge stores its
  \<open>line_count\<close> and \<open>language\<close> as they are, and its \<open>tags\<close> as it is when it is a
  list, wrapped into a list of one element otherwise.
\<close>

lemma validated_invariant_iff:
  assumes "validate_response (JObj m) = Inr m'"
  shows "metadata_invariant (dict_merge d m') \<longleftrightarrow> response_as_asked m"
proof -
  from assms obtain m0 t where m0: "JObj m = JObj m0"
    and lc: "map_of m0 k_line_count \<noteq> None"
    and la: "map_of m0 k_language \<noteq> None"
    and t: "map_of m0 k_tags = Some t"
    and m': "m' = (if is_list t then m0
               else AList.update k_tags
                 (if truthy t then JList [t] else JList [JStr (lit ''General'')]) m0)"
    by (rule validate_response_Inr)
  from m0 have eq: "m0 = m" by simp
  have same: "map_of m' k = map_of m k" if "k \<noteq> k_tags" for k
    using assms that by (rule validated_other_keys)
  have merged: "map_of (dict_merge d m') k = map_of m' k" if "map_of m' k \<noteq> None" for k
    using that by (auto simp: map_of_dict_merge map_add_def)
  have lc': "map_of (dict_merge d m') k_line_count = map_of m k_line_count"
    using merged [of k_line_count] same [of k_line_count] lc eq by simp
  have la': "map_of (dict_merge d m') k_language = map_of m k_language"
    using merged [of k_language] same [of k_language] la eq by simp
  have tags: "(\<exists>x xs. map_of (dict_merge d m') k_tags = Some (JList (x # xs)))
      \<longleftrightarrow> map_of m k_tags \<noteq> Some (JList [])"
  proof (cases "is_list t")
    case True
    then obtain ts where ts: "t = JList ts" by (cases t) simp_all
    from True m' eq have "m' = m" by simp
    with t eq ts have "map_of (dict_merge d m') k_tags = Some (JList ts)"
      by (simp add: map_of_dict_merge map_add_def)
    with t eq ts show ?thesis by (cases ts) simp_all
  next
    case False
    with m' have "\<exists>x. map_of m' k_tags = Some (JList [x])"
      by (simp add: update_conv')
    then have "\<exists>x. map_of (dict_merge d m') k_tags = Some (JList [x])"
      by (auto simp: map_of_dict_merge map_add_def)
    moreover from False t eq have "map_of m k_tags \<noteq> Some (JList [])" by auto
    ultimately show ?thesis by auto
  qed
  from lc eq have "map_of m k_line_count \<noteq> None" by simp
  with lc' la' tags show ?thesis
    unfolding metadata_invariant_def response_as_asked_def by simp
qed

lemma enrich_post_invariant:
  assumes "well_formed post"
  shows "\<exists>r w'. enrich_post env w post = (Inr r, w')
    \<and> map_of r k_line_count \<noteq> None \<and> map_of r k_language \<noteq> None
    \<and> (\<exists>ts. map_of r k_tags = Some (JList ts))
    \<and> (metadata_invariant r \<longleftrightarrow>
         (\<forall>m. post_answer env w post = Inr (JObj m) \<longrightarrow>
              map_of m k_line_count \<noteq> None \<longrightarrow> map_of m k_language \<noteq> None \<longrightarrow>
              map_of m k_tags \<noteq> None \<longrightarrow> response_as_asked m))"
proof -
  from assms obtain d s where post: "post = JObj d" and tx: "map_of d k_text = Some (JStr s)"
    by (auto simp: well_formed_iff)
  obtain t where t: "clean_unicode_text (JStr s) = JStr t"
    using clean_unicode_text_is_str by blast
  obtain t' where t': "clean_unicode_text (JStr t) = JStr t'"
    using clean_unicode_text_is_str by blast
  obtain r0 w' where a: "ask env w extract_template (lit ''post'') (JStr t') = (r0, w')"
    by (cases "ask env w extract_template (lit ''post'') (JStr t')")
  have pa: "post_answer env w (JObj d) = r0"
    unfolding post_answer_obj [OF tx] t t' a by simp
  note ep = enrich_post_str [OF tx t t' a]
  show ?thesis
  proof (cases "case r0 of Inl e \<Rightarrow> Inl e | Inr res \<Rightarrow> validate_response res")
    case (Inl e)
    have "response_as_asked m" if "r0 = Inr (JObj m)" "map_of m k_line_count \<noteq> None"
      "map_of m k_language \<noteq> None" "map_of m k_tags \<noteq> None" for m
    proof -
      from validate_response_keys [OF that(2-4)] obtain m'
        where "validate_response (JObj m) = Inr m'" by blast
      with Inl that(1) show ?thesis by simp
    qed
    with Inl show ?thesis
      unfolding post ep pa
      by (simp add: store_defaults_lookup store_defaults_invariant)
  next
    case (Inr m')
    then obtain res where res: "r0 = Inr res" and v: "validate_response res = Inr m'"
      by (cases r0) simp_all
    from v obtain m where m: "res = JObj m"
      and keys: "map_of m k_line_count \<noteq> None" "map_of m k_language \<noteq> None"
        "map_of m k_tags \<noteq> None"
      by (rule validate_response_Inr) auto
    from v m have iff: "metadata_invariant (dict_merge (AList.update k_text (JStr t) d) m')
        \<longleftrightarrow> response_as_asked m"
      by (simp add: validated_invariant_iff)
    from Inr validated_fields [OF v, of "AList.update k_text (JStr t) d"] iff keys
    show ?thesis
      unfolding post ep pa res m by simp
  qed
qed

text \<open>
  C1, as amended. For \<open>N\<close> well-formed records and whatever the model and the parser
  do, the first loop raises nothing and yields exactly \<open>N\<close> records; every one of
  them has the fields \<open>line_count\<close>, \<open>language\<close> and \<open>tags\<close>, and its \<open>tags\<close> is a
  list. The values are not checked by the program. The record at index \<open>i\<close>
  satisfies the invariant of the specification (a \<open>line_count\<close> that is not null, a
  \<open>language\<close> that is \<open>"English"\<close> or \<open>"Hinglish"\<close>, a non-empty list of tags)
  exactly when the answer to the request made for this record is not an object with
  the three keys (then the defaults are stored), or is such an object and has itself
  a \<open>line_count\<close> that is not null, one of the two languages and a \<open>tags\<close> other
  than the empty list.
\<close>

theorem enrichment_covers_all_records:
  assumes "list_all well_formed posts"
  shows "\<exists>rs w'. enrich_posts env w posts = (Inr rs, w')
    \<and> length rs = length posts
    \<and> list_all (\<lambda>r. map_of r k_line_count \<noteq> None \<and> map_of r k_language \<noteq> None
                    \<and> (\<exists>ts. map_of r k_tags = Some (JList ts))) rs
    \<and> (\<forall>i<length posts.
          metadata_invariant (rs ! i) \<longleftrightarrow>
            (\<forall>m. post_answer env (world_before env w posts i) (posts ! i) = Inr (JObj m) \<longrightarrow>
                 map_of m k_line_count \<noteq> None \<longrightarrow> map_of m k_language \<noteq> None \<longrightarrow>
                 map_of m k_tags \<noteq> None \<longrightarrow> response_as_asked m))"
  using assms
proof (induction posts arbitrary: w)
  case Nil
  show ?case by simp
next
  case (Cons post posts)
  from Cons.prems have wf: "well_formed post" and rest: "list_all well_formed posts"
    by simp_all
  from enrich_post_invariant [OF wf, of env w] obtain r w1
    where r: "enrich_post env w post = (Inr r, w1)"
      "map_of r k_line_count \<noteq> None" "map_of r k_language \<noteq> None"
      "\<exists>ts. map_of r k_tags = Some (JList ts)"
      "metadata_invariant r \<longleftrightarrow>
         (\<forall>m. post_answer env w post = Inr (JObj m) \<longrightarrow>
              map_of m k_line_count \<noteq> None \<longrightarrow> map_of m k_language \<noteq> None \<longrightarrow>
              map_of m k_tags \<noteq> None \<longrightarrow> response_as_asked m)"
    by blast
  from Cons.IH [OF rest, of w1] obtain rs w2
    where rs: "enrich_posts env w1 posts = (Inr rs, w2)" "length rs = length posts"
      "list_all (\<lambda>r. map_of r k_line_count \<noteq> None \<and> map_of r k_language \<noteq> None
                    \<and> (\<exists>ts. map_of r k_tags = Some (JList ts))) rs"
      "\<forall>i<length posts.
          metadata_invariant (rs ! i) \<longleftrightarrow>
            (\<forall>m. post_answer env (world_before env w1 posts i) (posts ! i) = Inr (JObj m) \<longrightarrow>
                 map_of m k_line_count \<noteq> None \<longrightarrow> map_of m k_language \<noteq> None \<longrightarrow>
                 map_of m k_tags \<noteq> None \<longrightarrow> response_as_asked m)"
    by blast
  have run: "enrich_posts env w (post # posts) = (Inr (r # rs), w2)"
    using r(1) rs(1) by simp
  have each: "metadata_invariant ((r # rs) ! i) \<longleftrightarrow>
      (\<forall>m. post_answer env (world_before env w (post # posts) i) ((post # posts) ! i)
              = Inr (JObj m) \<longrightarrow>
           map_of m k_line_count \<noteq> None \<longrightarrow> map_of m k_language \<noteq> None \<longrightarrow>
           map_of m k_tags \<noteq> None \<longrightarrow> response_as_asked m)"
    if "i < length (post # posts)" for i
  proof (cases i)
    case 0
    with r(5) show ?thesis by simp
  next
    case (Suc j)
    with that have "j < length posts" by simp
    with rs(4) Suc r(1) show ?thesis by simp
  qed
  show ?case
  proof (intro exI conjI)
    show "enrich_posts env w (post # posts) = (Inr (r # rs), w2)" by (rule run)
    show "length (r # rs) = length (post # posts)" using rs(2) by simp
    show "list_all (\<lambda>r. map_of r k_line_count \<noteq> None \<and> map_of r k_language \<noteq> None
                    \<and> (\<exists>ts. map_of r k_tags = Some (JList ts))) (r # rs)"
      using r(2-4) rs(3) by simp
    show "\<forall>i<length (post # posts).
          metadata_invariant ((r # rs) ! i) \<longleftrightarrow>
            (\<forall>m. post_answer env (world_before env w (post # posts) i) ((post # posts) ! i)
                    = Inr (JObj m) \<longrightarrow>
                 map_of m k_line_count \<noteq> None \<longrightarrow> map_of m k_language \<noteq> None \<longrightarrow>
                 map_of m k_tags \<noteq> None \<longrightarrow> response_as_asked m)"
      using each by blast
  qed
qed

lemma validate_french:
  "validate_response
     (JObj [(k_line_count, JNull), (k_language, JStr (lit ''French'')), (k_tags, JList [])])
   = Inr [(k_line_count, JNull), (k_language, JStr (lit ''French'')), (k_tags, JList [])]"
  by (simp add: validate_response_def all_keys_in_obj required_keys_def)

lemma validate_greeting:
  "validate_response
     (JObj [(k_line_count, JInt 1), (k_language, JStr (lit ''English'')),
            (k_tags, JList [JStr (lit ''Greeting'')])])
   = Inr [(k_line_count, JInt 1), (k_language, JStr (lit ''English'')),
          (k_tags, JList [JStr (lit ''Greeting'')])]"
  by (simp add: validate_response_def all_keys_in_obj required_keys_def)

lemma enrich_Bonjour:
  "enrich_post
     (canned_env files docs (Inr content)
        (Inr (JObj [(k_line_count, JNull), (k_language, JStr (lit ''French'')),
                    (k_tags, JList [])]))) w
     (JObj [(k_text, JStr (lit ''Bonjour''))])
   = (Inr [(k_text, JStr (lit ''Bonjour'')), (k_line_count, JNull),
           (k_language, JStr (lit ''French'')), (k_tags, JList [])], (Suc (fst w), snd w))"
proof -
  have tx: "map_of [(k_text, JStr (lit ''Bonjour''))] k_text = Some (JStr (lit ''Bonjour''))"
    by simp
  show ?thesis
    unfolding enrich_post_str [OF tx clean_Bonjour clean_Bonjour canned_ask]
    by (simp add: validate_french dict_merge_def dict_items_def)
qed

text \<open>
  C1 as stated fails. The model answers the request for the post \<open>"Bonjour"\<close> with
  \<open>{"line_count": null, "language": "French", "tags": []}\<close>. The three keys are
  there and \<open>tags\<close> is a list, so the answer is merged into the record as it is, the
  second loop finds no tag to rewrite, and the record the pipeline returns has a null
  \<open>line_count\<close>, the language \<open>"French"\<close> and an empty list of tags.
\<close>

theorem enrichment_values_unchecked:
  \<open>process_posts
     (canned_env
        [(lit ''raw_posts.json'', lit ''[{"text": "Bonjour"}]'')]
        [(lit ''[{"text": "Bonjour"}]'', JList [JObj [(k_text, JStr (lit ''Bonjour''))]])]
        (Inr (lit ''{"line_count": null, "language": "French", "tags": []}''))
        (Inr (JObj [(k_line_count, JNull), (k_language, JStr (lit ''French'')),
                    (k_tags, JList [])])))
     (0, []) (lit ''raw_posts.json'') None
   = ([[(k_text, JStr (lit ''Bonjour'')), (k_line_count, JNull),
        (k_language, JStr (lit ''French'')), (k_tags, JList [])]], (1, []))
   \<and> well_formed (JObj [(k_text, JStr (lit ''Bonjour''))])
   \<and> \<not> metadata_invariant
        [(k_text, JStr (lit ''Bonjour'')), (k_line_count, JNull),
         (k_language, JStr (lit ''French'')), (k_tags, JList [])]\<close>
proof -
  let ?r = "[(k_text, JStr (lit ''Bonjour'')), (k_line_count, JNull),
        (k_language, JStr (lit ''French'')), (k_tags, JList [])]"
  have u: "unify_posts env w [?r] = (Inr [?r], w)" if "set_iter env [] = []" for env :: "test_world env" and w
    using that
    by (simp add: unify_posts_def get_unified_tags_def apply_unified_def)
  have "set_iter (canned_env files docs reply parsed) [] = []" for files docs reply parsed
    by (simp add: canned_env_def)
  note u' = u [OF this]
  have rd: "read_file (canned_env [(lit ''raw_posts.json'', c)] docs reply parsed) w (lit ''raw_posts.json'') = Inr c"
    for c docs reply parsed w
    by (simp add: canned_env_def)
  have ld: "json_load (canned_env files [(c, v)] reply parsed) c = Inr v"
    for files c v reply parsed
    by (simp add: canned_env_def)
  have "well_formed (JObj [(k_text, JStr (lit ''Bonjour''))])"
    by (simp add: well_formed_def)
  moreover have "\<not> metadata_invariant ?r"
    by (simp add: metadata_invariant_def)
  ultimately show ?thesis
    by (simp add: process_posts_def rd ld enrich_Bonjour u')
qed

text \<open>
  A run of the first loop on two posts: the answer for the first is as asked, the
  answer for the second is the one above.
\<close>

theorem enrichment_covers_all_records_witness:
  \<open>list_all well_formed
     [JObj [(k_text, JStr (lit ''Hello''))], JObj [(k_text, JStr (lit ''Bonjour''))]]
   \<and> enrich_posts
        (scripted_env [] []
           [Inr (lit ''{"line_count": 1, "language": "English", "tags": ["Greeting"]}''),
            Inr (lit ''{"line_count": null, "language": "French", "tags": []}'')]
           [(lit ''{"line_count": 1, "language": "English", "tags": ["Greeting"]}'',
             JObj [(k_line_count, JInt 1), (k_language, JStr (lit ''English'')),
                   (k_tags, JList [JStr (lit ''Greeting'')])]),
            (lit ''{"line_count": null, "language": "French", "tags": []}'',
             JObj [(k_line_count, JNull), (k_language, JStr (lit ''French'')),
                   (k_tags, JList [])])])
        (0, [])
        [JObj [(k_text, JStr (lit ''Hello''))], JObj [(k_text, JStr (lit ''Bonjour''))]]
      = (Inr [[(k_text, JStr (lit ''Hello'')), (k_line_count, JInt 1),
               (k_language, JStr (lit ''English'')),
               (k_tags, JList [JStr (lit ''Greeting'')])],
              [(k_text, JStr (lit ''Bonjour'')), (k_line_count, JNull),
               (k_language, JStr (lit ''French'')), (k_tags, JList [])]], (2, []))
   \<and> metadata_invariant
        [(k_text, JStr (lit ''Hello'')), (k_line_count, JInt 1),
         (k_language, JStr (lit ''English'')), (k_tags, JList [JStr (lit ''Greeting'')])]
   \<and> \<not> metadata_invariant
        [(k_text, JStr (lit ''Bonjour'')), (k_line_count, JNull),
         (k_language, JStr (lit ''French'')), (k_tags, JList [])]\<close>
proof -
  let ?c0 = "lit ''{\"line_count\": 1, \"language\": \"English\", \"tags\": [\"Greeting\"]}''"
  let ?c1 = "lit ''{\"line_count\": null, \"language\": \"French\", \"tags\": []}''"
  let ?a0 = "[(k_line_count, JInt 1), (k_language, JStr (lit ''English'')),
                   (k_tags, JList [JStr (lit ''Greeting'')])]"
  let ?a1 = "[(k_line_count, JNull), (k_language, JStr (lit ''French'')), (k_tags, JList [])]"
  let ?env = "scripted_env [] [] [Inr ?c0, Inr ?c1] [(?c0, JObj ?a0), (?c1, JObj ?a1)]"
  let ?p0 = "JObj [(k_text, JStr (lit ''Hello''))]"
  let ?p1 = "JObj [(k_text, JStr (lit ''Bonjour''))]"
  let ?r0 = "[(k_text, JStr (lit ''Hello'')), (k_line_count, JInt 1),
         (k_language, JStr (lit ''English'')), (k_tags, JList [JStr (lit ''Greeting'')])]"
  let ?r1 = "[(k_text, JStr (lit ''Bonjour'')), (k_line_count, JNull),
         (k_language, JStr (lit ''French'')), (k_tags, JList [])]"
  have ne: "?c1 \<noteq> ?c0" by (simp add: lit_def)
  have wf: "list_all well_formed [?p0, ?p1]" by (simp add: well_formed_def)
  have a0: "ask ?env (0, []) extract_template (lit ''post'') (JStr (lit ''Hello''))
      = (Inr (JObj ?a0), (1, []))"
    by (subst scripted_ask [where content = ?c0]) simp_all
  have a1: "ask ?env (1, []) extract_template (lit ''post'') (JStr (lit ''Bonjour''))
      = (Inr (JObj ?a1), (2, []))"
    using ne by (subst scripted_ask [where content = ?c1]) simp_all
  have tx0: "map_of [(k_text, JStr (lit ''Hello''))] k_text = Some (JStr (lit ''Hello''))"
    by simp
  have tx1: "map_of [(k_text, JStr (lit ''Bonjour''))] k_text = Some (JStr (lit ''Bonjour''))"
    by simp
  have e0: "enrich_post ?env (0, []) ?p0 = (Inr ?r0, (1, []))"
    unfolding enrich_post_str [OF tx0 clean_Hello clean_Hello a0]
    by (simp add: validate_greeting dict_merge_def dict_items_def)
  have e1: "enrich_post ?env (1, []) ?p1 = (Inr ?r1, (2, []))"
    unfolding enrich_post_str [OF tx1 clean_Bonjour clean_Bonjour a1]
    by (simp add: validate_french dict_merge_def dict_items_def)
  have run: "enrich_posts ?env (0, []) [?p0, ?p1] = (Inr [?r0, ?r1], (2, []))"
    by (simp only: enrich_posts.simps e0 e1 prod.case sum.case)
  have pa0: "post_answer ?env (world_before ?env (0, []) [?p0, ?p1] 0) ([?p0, ?p1] ! 0)
      = Inr (JObj ?a0)"
    by (simp add: post_answer_def clean_Hello a0)
  have wb: "world_before ?env (0, []) [?p0, ?p1] 1 = (1, [])"
    unfolding One_nat_def world_before.simps e0 [unfolded One_nat_def] by simp
  have pa1: "post_answer ?env (world_before ?env (0, []) [?p0, ?p1] 1) ([?p0, ?p1] ! 1)
      = Inr (JObj ?a1)"
  proof -
    have n: "[?p0, ?p1] ! 1 = ?p1" by simp
    show ?thesis
      unfolding n wb post_answer_obj [OF tx1] clean_Bonjour a1 by simp
  qed
  from enrichment_covers_all_records [OF wf, of ?env "(0, [])"] obtain rs w'
    where rs: "enrich_posts ?env (0, []) [?p0, ?p1] = (Inr rs, w')"
      and each: "\<forall>i<length [?p0, ?p1].
          metadata_invariant (rs ! i) \<longleftrightarrow>
            (\<forall>m. post_answer ?env (world_before ?env (0, []) [?p0, ?p1] i) ([?p0, ?p1] ! i)
                    = Inr (JObj m) \<longrightarrow>
                 map_of m k_line_count \<noteq> None \<longrightarrow> map_of m k_language \<noteq> None \<longrightarrow>
                 map_of m k_tags \<noteq> None \<longrightarrow> response_as_asked m)"
    by blast
  from rs run have rs_eq: "rs = [?r0, ?r1]" by simp
  have "response_as_asked ?a0" by (simp add: response_as_asked_def)
  with each [rule_format, of 0] have i0: "metadata_invariant ?r0"
    unfolding pa0 rs_eq by simp
  have "\<not> response_as_asked ?a1" by (simp add: response_as_asked_def)
  with each [rule_format, of 1] have i1: "\<not> metadata_invariant ?r1"
    unfolding pa1 rs_eq by simp
  show ?thesis
    by (intro conjI wf run i0 i1)
qed

section \<open>Lemmas about sets of tags\<close>

lemma py_eq_iff: "py_eq a b \<longleftrightarrow> as_number a = as_number b"
  by (simp add: py_eq_def)

lemma as_number_str: "is_str v \<Longrightarrow> as_number v = v"
  by (cases v) simp_all

lemma as_number_eq_str: "as_number u = JStr s \<longleftrightarrow> u = JStr s"
  by (cases u) simp_all

lemma py_eq_str: "is_str v \<Longrightarrow> py_eq v u \<longleftrightarrow> u = v"
proof (cases v)
  case (JStr s)
  have "JStr s = as_number u \<longleftrightarrow> as_number u = JStr s" by (rule eq_commute)
  with JStr show ?thesis by (simp add: py_eq_def as_number_eq_str)
qed simp_all

lemma set_set_add:
  "set (set_add x s) = (if as_number x \<in> as_number ` set s then set s else insert x (set s))"
  by (auto simp: set_add_def list_ex_iff py_eq_iff)

lemma distinct_set_add:
  "distinct (map as_number s) \<Longrightarrow> distinct (map as_number (set_add x s))"
  by (auto simp: set_add_def list_ex_iff py_eq_iff)

lemma set_add_has: "\<exists>u\<in>set (set_add x s). py_eq x u"
  by (auto simp: set_add_def list_ex_iff py_eq_iff)

lemma set_add_mono: "set s \<subseteq> set (set_add x s)"
  by (auto simp: set_add_def)

lemma set_update_Inr:
  assumes "set_update s xs = Inr s'"
  shows "set s \<subseteq> set s'" and "set s' \<subseteq> set s \<union> set xs"
    and "\<forall>x\<in>set xs. hashable x \<and> (\<exists>u\<in>set s'. py_eq x u)"
    and "distinct (map as_number s) \<Longrightarrow> distinct (map as_number s')"
  using assms
proof (induction xs arbitrary: s)
  case Nil
  {
    case 1 then show ?case by simp
  next
    case 2 then show ?case by simp
  next
    case 3 then show ?case by simp
  next
    case 4 then show ?case by simp
  }
next
  case (Cons x xs)
  {
    case 1
    then have h: "hashable x" and r: "set_update (set_add x s) xs = Inr s'"
      by (simp_all split: if_splits)
    from Cons.IH(1) [OF r] set_add_mono [of s x] show ?case by blast
  next
    case 2
    then have h: "hashable x" and r: "set_update (set_add x s) xs = Inr s'"
      by (simp_all split: if_splits)
    from Cons.IH(2) [OF r] show ?case by (auto simp: set_set_add split: if_splits)
  next
    case 3
    then have h: "hashable x" and r: "set_update (set_add x s) xs = Inr s'"
      by (simp_all split: if_splits)
    from set_add_has [of x s] Cons.IH(1) [OF r] have "\<exists>u\<in>set s'. py_eq x u" by blast
    with h Cons.IH(3) [OF r] show ?case by simp
  next
    case 4
    then have r: "set_update (set_add x s) xs = Inr s'" and d: "distinct (map as_number s)"
      by (simp_all split: if_splits)
    from Cons.IH(4) [OF distinct_set_add [OF d] r] show ?case .
  }
qed

lemma set_update_empty:
  "set_update s [] = Inr s"
  by simp

lemma collect_tags_Inr:
  assumes "collect_tags s posts = Inr us"
  shows "set s \<subseteq> set us"
    and "\<forall>p\<in>set posts. \<forall>ts. map_of p k_tags = Some (JList ts) \<longrightarrow>
           (\<forall>t\<in>set ts. hashable t \<and> (\<exists>u\<in>set us. py_eq t u))"
    and "\<forall>u\<in>set us. u \<in> set s \<or>
           (\<exists>p\<in>set posts. \<exists>ts. map_of p k_tags = Some (JList ts) \<and> u \<in> set ts)"
  using assms
proof (induction posts arbitrary: s)
  case Nil
  {
    case 1 then show ?case by simp
  next
    case 2 then show ?case by simp
  next
    case 3 then show ?case by simp
  }
next
  case (Cons p posts)
  show "set s \<subseteq> set us" if c: "collect_tags s (p # posts) = Inr us" for s
  proof (cases "\<exists>ts. map_of p k_tags = Some (JList ts)")
    case True
    then obtain ts where ts: "map_of p k_tags = Some (JList ts)" by blast
    with c obtain s' where s': "set_update s ts = Inr s'" "collect_tags s' posts = Inr us"
      by (auto split: sum.splits)
    from set_update_Inr(1) [OF s'(1)] Cons.IH(1) [OF s'(2)] show ?thesis by blast
  next
    case False
    with c have "collect_tags s posts = Inr us"
      by (auto split: option.splits json.splits)
    from Cons.IH(1) [OF this] show ?thesis .
  qed
  show "\<forall>q\<in>set (p # posts). \<forall>ts. map_of q k_tags = Some (JList ts) \<longrightarrow>
           (\<forall>t\<in>set ts. hashable t \<and> (\<exists>u\<in>set us. py_eq t u))"
    if c: "collect_tags s (p # posts) = Inr us" for s
  proof (cases "\<exists>ts. map_of p k_tags = Some (JList ts)")
    case True
    then obtain ts where ts: "map_of p k_tags = Some (JList ts)" by blast
    with c obtain s' where s': "set_update s ts = Inr s'" "collect_tags s' posts = Inr us"
      by (auto split: sum.splits)
    from set_update_Inr(3) [OF s'(1)] Cons.IH(1) [OF s'(2)]
    have "\<forall>t\<in>set ts. hashable t \<and> (\<exists>u\<in>set us. py_eq t u)" by blast
    with ts Cons.IH(2) [OF s'(2)] show ?thesis by auto
  next
    case False
    with c have "collect_tags s posts = Inr us"
      by (auto split: option.splits json.splits)
    from Cons.IH(2) [OF this] False show ?thesis by auto
  qed
  show "\<forall>u\<in>set us. u \<in> set s \<or>
           (\<exists>q\<in>set (p # posts). \<exists>ts. map_of q k_tags = Some (JList ts) \<and> u \<in> set ts)"
    if c: "collect_tags s (p # posts) = Inr us" for s
  proof (cases "\<exists>ts. map_of p k_tags = Some (JList ts)")
    case True
    then obtain ts where ts: "map_of p k_tags = Some (JList ts)" by blast
    with c obtain s' where s': "set_update s ts = Inr s'" "collect_tags s' posts = Inr us"
      by (auto split: sum.splits)
    show ?thesis
    proof
      fix u
      assume "u \<in> set us"
      with Cons.IH(3) [OF s'(2)] consider "u \<in> set s'"
        | "\<exists>q\<in>set posts. \<exists>ts. map_of q k_tags = Some (JList ts) \<and> u \<in> set ts"
        by blast
      then show "u \<in> set s \<or>
           (\<exists>q\<in>set (p # posts). \<exists>ts. map_of q k_tags = Some (JList ts) \<and> u \<in> set ts)"
      proof cases
        case 1
        with set_update_Inr(2) [OF s'(1)] have "u \<in> set s \<or> u \<in> set ts" by blast
        with ts show ?thesis by auto
      next
        case 2
        then show ?thesis by auto
      qed
    qed
  next
    case False
    with c have "collect_tags s posts = Inr us"
      by (auto split: option.splits json.splits)
    from Cons.IH(3) [OF this] show ?thesis by auto
  qed
qed

lemma collect_tags_none:
  assumes "\<forall>p\<in>set posts. \<forall>ts. map_of p k_tags = Some (JList ts) \<longrightarrow> ts = []"
  shows "collect_tags s posts = Inr s"
  using assms
proof (induction posts)
  case Nil
  show ?case by simp
next
  case (Cons p posts)
  then show ?case
    by (auto split: option.splits json.splits)
qed

lemma str_join_Inr: "str_join sep xs = Inr j \<Longrightarrow> list_all is_str xs"
proof (induction sep xs arbitrary: j rule: str_join.induct)
  case (3 sep s x xs)
  then show ?case by (auto split: sum.splits)
qed simp_all

lemma str_join_strs: "list_all is_str xs \<Longrightarrow> \<exists>j. str_join sep xs = Inr j"
proof (induction sep xs rule: str_join.induct)
  case (3 sep s x xs)
  then show ?case by (auto split: sum.splits)
qed simp_all

lemma map_of_identity_mapping:
  "map_of (identity_mapping ts) s = (if JStr s \<in> set ts then Some (JStr s) else None)"
proof (induction ts)
  case Nil
  show ?case by (simp add: identity_mapping_def)
next
  case (Cons t ts)
  then show ?case
    by (cases t) (auto simp: identity_mapping_def)
qed

lemma iter_ok_set: "iter_ok env \<Longrightarrow> set (set_iter env xs) = set xs"
  by (auto simp: iter_ok_def dest: mset_eq_setD)

lemma iter_ok_distinct:
  assumes "iter_ok env"
  shows "distinct (map f (set_iter env xs)) \<longleftrightarrow> distinct (map f xs)"
proof -
  from assms have "mset (map f (set_iter env xs)) = mset (map f xs)"
    by (simp add: iter_ok_def)
  then show ?thesis by (rule mset_eq_imp_distinct_iff)
qed

lemma iter_ok_Nil: "iter_ok env \<Longrightarrow> set_iter env [] = []"
  using iter_ok_set [of env "[]"] by simp

lemma iter_ok_single: "iter_ok env \<Longrightarrow> set_iter env [x] = [x]"
proof -
  assume "iter_ok env"
  then have "mset (set_iter env [x]) = {#x#}" by (simp add: iter_ok_def)
  then show ?thesis by (simp add: mset_single_iff_right)
qed

section \<open>Lemmas about the rewriting of the tags\<close>

lemma unified_get_hashable:
  assumes "hashable t" and "\<forall>k v. map_of m k = Some v \<longrightarrow> hashable v"
  shows "hashable (unified_get m t)"
  using assms by (cases t) (auto simp: unified_get_def split: option.splits)

lemma unify_set_Inr:
  assumes "\<forall>t\<in>set tags. hashable t \<and> hashable (unified_get m t)"
  shows "\<exists>r. unify_set m acc tags = Inr r
    \<and> set acc \<subseteq> set r
    \<and> set r \<subseteq> set acc \<union> unified_get m ` set tags
    \<and> (\<forall>t\<in>set tags. \<exists>u\<in>set r. py_eq (unified_get m t) u)
    \<and> (distinct (map as_number acc) \<longrightarrow> distinct (map as_number r))"
  using assms
proof (induction tags arbitrary: acc)
  case Nil
  show ?case by simp
next
  case (Cons t tags)
  let ?acc = "set_add (unified_get m t) acc"
  from Cons.prems have h: "hashable t" "hashable (unified_get m t)"
    and rest: "\<forall>t\<in>set tags. hashable t \<and> hashable (unified_get m t)"
    by simp_all
  from Cons.IH [OF rest, of ?acc] obtain r
    where r: "unify_set m ?acc tags = Inr r" "set ?acc \<subseteq> set r"
      "set r \<subseteq> set ?acc \<union> unified_get m ` set tags"
      "\<forall>t\<in>set tags. \<exists>u\<in>set r. py_eq (unified_get m t) u"
      "distinct (map as_number ?acc) \<longrightarrow> distinct (map as_number r)"
    by blast
  have 1: "unify_set m acc (t # tags) = Inr r"
    using h r(1) by simp
  have 2: "set acc \<subseteq> set r"
    using set_add_mono [of acc "unified_get m t"] r(2) by blast
  have 3: "set r \<subseteq> set acc \<union> unified_get m ` set (t # tags)"
    using r(3) by (auto simp: set_set_add split: if_splits)
  have "\<exists>u\<in>set r. py_eq (unified_get m t) u"
    using set_add_has [of "unified_get m t" acc] r(2) by blast
  with r(4) have 4: "\<forall>x\<in>set (t # tags). \<exists>u\<in>set r. py_eq (unified_get m x) u"
    by simp
  have 5: "distinct (map as_number acc) \<longrightarrow> distinct (map as_number r)"
    using r(5) distinct_set_add by blast
  from 1 2 3 4 5 show ?case by blast
qed

lemma apply_unified_tags:
  assumes "iter_ok env"
    and "map_of post k_tags = Some (JList tags)"
    and "\<forall>t\<in>set tags. hashable t"
    and "\<forall>k v. map_of m k = Some v \<longrightarrow> hashable v"
  shows "\<exists>new_tags. apply_unified env m post
        = Inr (AList.update k_tags (JList new_tags) post)
    \<and> set new_tags \<subseteq> unified_get m ` set tags
    \<and> (\<forall>t\<in>set tags. \<exists>u\<in>set new_tags. py_eq (unified_get m t) u)
    \<and> distinct (map as_number new_tags)"
proof -
  have "\<forall>t\<in>set tags. hashable t \<and> hashable (unified_get m t)"
    using assms(3,4) by (auto intro: unified_get_hashable)
  from unify_set_Inr [OF this, of "[]"] obtain r
    where r: "unify_set m [] tags = Inr r"
      "set r \<subseteq> unified_get m ` set tags"
      "\<forall>t\<in>set tags. \<exists>u\<in>set r. py_eq (unified_get m t) u"
      "distinct (map as_number r)"
    by auto
  have a: "apply_unified env m post = Inr (AList.update k_tags (JList (set_iter env r)) post)"
    using assms(2) r(1) by (simp add: apply_unified_def)
  have s: "set (set_iter env r) = set r"
    using assms(1) by (rule iter_ok_set)
  have d: "distinct (map as_number (set_iter env r))"
    using r(4) iter_ok_distinct [OF assms(1)] by blast
  show ?thesis
  proof (intro exI conjI)
    show "apply_unified env m post = Inr (AList.update k_tags (JList (set_iter env r)) post)"
      by (rule a)
    show "set (set_iter env r) \<subseteq> unified_get m ` set tags"
      using r(2) s by simp
    show "\<forall>t\<in>set tags. \<exists>u\<in>set (set_iter env r). py_eq (unified_get m t) u"
      using r(3) s by simp
    show "distinct (map as_number (set_iter env r))"
      by (rule d)
  qed
qed

lemma str_tags_exact:
  assumes "set new_tags \<subseteq> f ` set tags"
    and "\<forall>t\<in>set tags. \<exists>u\<in>set new_tags. py_eq (f t) u"
    and "distinct (map as_number new_tags)"
    and "\<forall>t\<in>set tags. is_str (f t)"
  shows "set new_tags = f ` set tags" and "distinct new_tags"
proof -
  have "f t \<in> set new_tags" if "t \<in> set tags" for t
  proof -
    from that assms(2) obtain u where u: "u \<in> set new_tags" "py_eq (f t) u" by blast
    from that assms(4) have "is_str (f t)" by blast
    with u(2) have "u = f t" by (simp add: py_eq_str)
    with u(1) show ?thesis by simp
  qed
  with assms(1) show "set new_tags = f ` set tags" by blast
  from assms(3) show "distinct new_tags" by (simp add: distinct_map)
qed

section \<open>The rewriting of the tags through the mapping\<close>

lemma scenario_tags_neq:
  "lit ''Jobseekers'' \<noteq> lit ''Job Hunting''" "lit ''Jobseekers'' \<noteq> lit ''Motivation''"
  "lit ''Job Hunting'' \<noteq> lit ''Jobseekers''" "lit ''Job Hunting'' \<noteq> lit ''Motivation''"
  "lit ''Motivation'' \<noteq> lit ''Jobseekers''" "lit ''Motivation'' \<noteq> lit ''Job Hunting''"
  by (simp_all add: lit_def)

lemma job_mapping_lookup:
  "map_of job_mapping (lit ''Jobseekers'') = Some (JStr (lit ''Job Search''))"
  "map_of job_mapping (lit ''Job Hunting'') = Some (JStr (lit ''Job Search''))"
  "map_of job_mapping (lit ''Motivation'') = Some (JStr (lit ''Motivation''))"
  by (simp_all add: job_mapping_def scenario_tags_neq)

lemma count_categories_job_mapping: "count_categories (JObj job_mapping) = Inr job_mapping"
  by (simp add: count_categories_def dict_items_def job_mapping_def scenario_tags_neq)

lemma apply_unified_single:
  assumes "iter_ok env" and "map_of post k_tags = Some (JList [JStr s])"
    and "map_of m s = Some (JStr s')"
  shows "apply_unified env m post = Inr (AList.update k_tags (JList [JStr s']) post)"
  using assms
  by (simp add: apply_unified_def unified_get_def set_add_def iter_ok_single)

lemma scenario_unify:
  assumes ok: "iter_ok env"
    and r1: "map_of r1 k_tags = Some (JList [JStr (lit ''Jobseekers'')])"
    and r2: "map_of r2 k_tags = Some (JList [JStr (lit ''Job Hunting'')])"
    and r3: "map_of r3 k_tags = Some (JList [JStr (lit ''Motivation'')])"
    and answer: "\<forall>v. fst (ask env w unify_template (lit ''tags'') v) = Inr (JObj job_mapping)"
  shows "fst (unify_posts env w [r1, r2, r3]) =
    Inr [AList.update k_tags (JList [JStr (lit ''Job Search'')]) r1,
         AList.update k_tags (JList [JStr (lit ''Job Search'')]) r2,
         AList.update k_tags (JList [JStr (lit ''Motivation'')]) r3]"
proof -
  let ?us = "[JStr (lit ''Jobseekers''), JStr (lit ''Job Hunting''), JStr (lit ''Motivation'')]"
  have c: "collect_tags [] [r1, r2, r3] = Inr ?us"
    using r1 r2 r3 by (simp add: set_add_def py_eq_def scenario_tags_neq)
  have "set (set_iter env ?us) = set ?us" using ok by (rule iter_ok_set)
  then have "list_all is_str (set_iter env ?us)"
    by (auto simp: list_all_iff)
  then obtain j where j: "str_join (lit '','') (set_iter env ?us) = Inr j"
    using str_join_strs by blast
  have "fst (ask env w unify_template (lit ''tags'') (JStr j)) = Inr (JObj job_mapping)"
    using answer by blast
  then obtain w' where a: "ask env w unify_template (lit ''tags'') (JStr j) = (Inr (JObj job_mapping), w')"
    by (cases "ask env w unify_template (lit ''tags'') (JStr j)") simp
  have g: "get_unified_tags env w [r1, r2, r3] = (Inr job_mapping, w')"
    unfolding get_unified_tags_def c
    by (simp add: j a count_categories_job_mapping Let_def)
  show ?thesis
    by (simp add: unify_posts_def g
        apply_unified_single [OF ok r1 job_mapping_lookup(1)]
        apply_unified_single [OF ok r2 job_mapping_lookup(2)]
        apply_unified_single [OF ok r3 job_mapping_lookup(3)])
qed

text \<open>
  C3. Let a record have the list \<open>tags\<close> in its \<open>tags\<close> field, all of them hashable
  (they are strings in the pipeline), and let the mapping have hashable values (the
  mappings \<open>get_unified_tags\<close> returns have). Then the second loop stores a list
  \<open>new_tags\<close> in the field that is the set \<open>{mapping.get(tag, tag) for tag in tags}\<close>
  in some order: each of its elements is the image of a tag, the image of every tag
  is in it up to Python's equality, and no two of its elements are equal for Python.
  When the images are strings, as canonical tags are, \<open>new_tags\<close> has exactly the
  images as its elements, each once. In the scenario of the specification, where the
  model answers the unification request with the mapping \<open>job_mapping\<close>, the records
  tagged \<open>Jobseekers\<close>, \<open>Job Hunting\<close> and \<open>Motivation\<close> end with the tags
  \<open>Job Search\<close>, \<open>Job Search\<close> and \<open>Motivation\<close>.
\<close>

theorem unified_tags_applied:
  assumes "iter_ok env"
    and "map_of post k_tags = Some (JList tags)"
    and "\<forall>t\<in>set tags. hashable t"
    and "\<forall>k v. map_of unified_tags k = Some v \<longrightarrow> hashable v"
  shows "(\<exists>new_tags.
        apply_unified env unified_tags post = Inr (AList.update k_tags (JList new_tags) post)
      \<and> set new_tags \<subseteq> unified_get unified_tags ` set tags
      \<and> (\<forall>t\<in>set tags. \<exists>u\<in>set new_tags. py_eq (unified_get unified_tags t) u)
      \<and> distinct (map as_number new_tags)
      \<and> ((\<forall>t\<in>set tags. is_str (unified_get unified_tags t)) \<longrightarrow>
            set new_tags = unified_get unified_tags ` set tags \<and> distinct new_tags))
    \<and> (\<forall>r1 r2 r3 w.
          map_of r1 k_tags = Some (JList [JStr (lit ''Jobseekers'')]) \<longrightarrow>
          map_of r2 k_tags = Some (JList [JStr (lit ''Job Hunting'')]) \<longrightarrow>
          map_of r3 k_tags = Some (JList [JStr (lit ''Motivation'')]) \<longrightarrow>
          (\<forall>v. fst (ask env w unify_template (lit ''tags'') v) = Inr (JObj job_mapping)) \<longrightarrow>
          fst (unify_posts env w [r1, r2, r3]) =
            Inr [AList.update k_tags (JList [JStr (lit ''Job Search'')]) r1,
                 AList.update k_tags (JList [JStr (lit ''Job Search'')]) r2,
                 AList.update k_tags (JList [JStr (lit ''Motivation'')]) r3])"
proof (rule conjI)
  from apply_unified_tags [OF assms] obtain new_tags
    where n: "apply_unified env unified_tags post
        = Inr (AList.update k_tags (JList new_tags) post)"
      "set new_tags \<subseteq> unified_get unified_tags ` set tags"
      "\<forall>t\<in>set tags. \<exists>u\<in>set new_tags. py_eq (unified_get unified_tags t) u"
      "distinct (map as_number new_tags)"
    by blast
  have "set new_tags = unified_get unified_tags ` set tags \<and> distinct new_tags"
    if "\<forall>t\<in>set tags. is_str (unified_get unified_tags t)"
    using str_tags_exact [OF n(2-4) that] by simp
  with n show "\<exists>new_tags.
        apply_unified env unified_tags post = Inr (AList.update k_tags (JList new_tags) post)
      \<and> set new_tags \<subseteq> unified_get unified_tags ` set tags
      \<and> (\<forall>t\<in>set tags. \<exists>u\<in>set new_tags. py_eq (unified_get unified_tags t) u)
      \<and> distinct (map as_number new_tags)
      \<and> ((\<forall>t\<in>set tags. is_str (unified_get unified_tags t)) \<longrightarrow>
            set new_tags = unified_get unified_tags ` set tags \<and> distinct new_tags)"
    by blast
next
  show "\<forall>r1 r2 r3 w.
          map_of r1 k_tags = Some (JList [JStr (lit ''Jobseekers'')]) \<longrightarrow>
          map_of r2 k_tags = Some (JList [JStr (lit ''Job Hunting'')]) \<longrightarrow>
          map_of r3 k_tags = Some (JList [JStr (lit ''Motivation'')]) \<longrightarrow>
          (\<forall>v. fst (ask env w unify_template (lit ''tags'') v) = Inr (JObj job_mapping)) \<longrightarrow>
          fst (unify_posts env w [r1, r2, r3]) =
            Inr [AList.update k_tags (JList [JStr (lit ''Job Search'')]) r1,
                 AList.update k_tags (JList [JStr (lit ''Job Search'')]) r2,
                 AList.update k_tags (JList [JStr (lit ''Motivation'')]) r3]"
    using scenario_unify [OF assms(1)] by blast
qed

theorem unified_tags_applied_witness:
  \<open>iter_ok (canned_env [] [] (Inr (lit ''{}'')) (Inr (JObj job_mapping)))
   \<and> map_of [(k_tags, JList [JStr (lit ''Jobseekers''), JStr (lit ''Job Hunting''),
                             JStr (lit ''Motivation''), JStr (lit ''Python'')])] k_tags
      = Some (JList [JStr (lit ''Jobseekers''), JStr (lit ''Job Hunting''),
                     JStr (lit ''Motivation''), JStr (lit ''Python'')])
   \<and> list_all hashable [JStr (lit ''Jobseekers''), JStr (lit ''Job Hunting''),
                        JStr (lit ''Motivation''), JStr (lit ''Python'')]
   \<and> list_all (\<lambda>(k, v). hashable v) job_mapping
   \<and> apply_unified (canned_env [] [] (Inr (lit ''{}'')) (Inr (JObj job_mapping))) job_mapping
        [(k_tags, JList [JStr (lit ''Jobseekers''), JStr (lit ''Job Hunting''),
                         JStr (lit ''Motivation''), JStr (lit ''Python'')])]
      = Inr [(k_tags, JList [JStr (lit ''Job Search''), JStr (lit ''Motivation''),
                             JStr (lit ''Python'')])]
   \<and> fst (unify_posts (canned_env [] [] (Inr (lit ''{}'')) (Inr (JObj job_mapping))) (0, [])
        [[(k_tags, JList [JStr (lit ''Jobseekers'')])],
         [(k_tags, JList [JStr (lit ''Job Hunting'')])],
         [(k_tags, JList [JStr (lit ''Motivation'')])]])
      = Inr [[(k_tags, JList [JStr (lit ''Job Search'')])],
             [(k_tags, JList [JStr (lit ''Job Search'')])],
             [(k_tags, JList [JStr (lit ''Motivation'')])]]\<close>
proof -
  let ?env = "canned_env [] [] (Inr (lit ''{}'')) (Inr (JObj job_mapping))"
  let ?tags = "[JStr (lit ''Jobseekers''), JStr (lit ''Job Hunting''),
                JStr (lit ''Motivation''), JStr (lit ''Python'')]"
  have ok: "iter_ok ?env" by (rule canned_iter_ok)
  have p: "map_of [(k_tags, JList ?tags)] k_tags = Some (JList ?tags)" by simp
  have h: "\<forall>t\<in>set ?tags. hashable t" by simp
  have hv: "\<forall>k v. map_of job_mapping k = Some v \<longrightarrow> hashable v"
    by (auto simp: job_mapping_def split: if_splits)
  have py: "lit ''Jobseekers'' \<noteq> lit ''Python''" "lit ''Job Hunting'' \<noteq> lit ''Python''"
    "lit ''Motivation'' \<noteq> lit ''Python''" "lit ''Job Search'' \<noteq> lit ''Python''"
    "lit ''Job Search'' \<noteq> lit ''Motivation''"
    "lit ''Python'' \<noteq> lit ''Jobseekers''" "lit ''Python'' \<noteq> lit ''Job Hunting''"
    "lit ''Python'' \<noteq> lit ''Motivation''" "lit ''Python'' \<noteq> lit ''Job Search''"
    "lit ''Motivation'' \<noteq> lit ''Job Search''"
    by (simp_all add: lit_def)
  have none: "map_of job_mapping (lit ''Python'') = None"
    by (simp add: job_mapping_def py)
  have a: "apply_unified ?env job_mapping [(k_tags, JList ?tags)]
      = Inr [(k_tags, JList [JStr (lit ''Job Search''), JStr (lit ''Motivation''),
                             JStr (lit ''Python'')])]"
    by (simp add: apply_unified_def unified_get_def job_mapping_lookup none set_add_def
        py_eq_def py canned_env_def)
  have hm: "list_all (\<lambda>(k, v). hashable v) job_mapping"
    by (simp add: job_mapping_def)
  have ans: "\<forall>v. fst (ask ?env (0, []) unify_template (lit ''tags'') v) = Inr (JObj job_mapping)"
    by (simp add: canned_ask)
  from unified_tags_applied [OF ok p h hv] ans
  have "fst (unify_posts ?env (0, [])
        [[(k_tags, JList [JStr (lit ''Jobseekers'')])],
         [(k_tags, JList [JStr (lit ''Job Hunting'')])],
         [(k_tags, JList [JStr (lit ''Motivation'')])]])
      = Inr [AList.update k_tags (JList [JStr (lit ''Job Search'')])
               [(k_tags, JList [JStr (lit ''Jobseekers'')])],
             AList.update k_tags (JList [JStr (lit ''Job Search'')])
               [(k_tags, JList [JStr (lit ''Job Hunting'')])],
             AList.update k_tags (JList [JStr (lit ''Motivation'')])
               [(k_tags, JList [JStr (lit ''Motivation'')])]]"
    by simp
  with ok p a hm show ?thesis by simp
qed

section \<open>The identity fallback of the unification\<close>

lemma collected_strs:
  assumes ok: "iter_ok env"
    and c: "collect_tags [] posts = Inr us"
    and j: "str_join sep (set_iter env us) = Inr joined"
  shows "list_all is_str us"
    and "\<forall>p\<in>set posts. \<forall>ts. map_of p k_tags = Some (JList ts) \<longrightarrow> set ts \<subseteq> set us"
proof -
  from str_join_Inr [OF j] iter_ok_set [OF ok, of us] show strs: "list_all is_str us"
    by (simp add: list_all_iff)
  show "\<forall>p\<in>set posts. \<forall>ts. map_of p k_tags = Some (JList ts) \<longrightarrow> set ts \<subseteq> set us"
  proof (intro ballI allI impI subsetI)
    fix p ts t
    assume "p \<in> set posts" "map_of p k_tags = Some (JList ts)" "t \<in> set ts"
    with collect_tags_Inr(2) [OF c] obtain u where u: "u \<in> set us" "py_eq t u" by blast
    from u(1) strs have "is_str u" by (simp add: list_all_iff)
    moreover from u(2) have "py_eq u t" by (simp add: py_eq_def)
    ultimately have "t = u" by (simp add: py_eq_str)
    with u(1) show "t \<in> set us" by simp
  qed
qed

lemma unified_get_identity:
  assumes "t \<in> set ts" "is_str t"
  shows "unified_get (identity_mapping ts) t = t"
proof (cases t)
  case (JStr s)
  with assms(1) show ?thesis
    by (simp add: unified_get_def map_of_identity_mapping)
qed (simp_all add: unified_get_def)

lemma identity_mapping_hashable:
  "\<forall>k v. map_of (identity_mapping ts) k = Some v \<longrightarrow> hashable v"
  by (auto simp: map_of_identity_mapping split: if_splits)

text \<open>
  C4. Let the posts have at least one tag, all tags strings, so that the request with
  the comma-joined tags is made. When that request fails, because the call raises or
  because the parser raises on the answer (malformed JSON), \<open>get_unified_tags\<close>
  returns the identity mapping: every collected tag is a key and maps to itself, and
  there is no other key. The second loop with this mapping leaves the set of tags of
  every record as it is.
\<close>

theorem unification_identity_fallback:
  assumes "iter_ok env"
    and "collect_tags [] posts = Inr unique_tags" and "unique_tags \<noteq> []"
    and "str_join (lit '','') (set_iter env unique_tags) = Inr unique_tags_list"
    and "invoke env w unify_template (lit ''tags'') (JStr unique_tags_list) = (reply, w')"
    and "(\<exists>e. reply = Inl e) \<or> (\<exists>c e. reply = Inr c \<and> parse env c = Inl e)"
  shows "get_unified_tags env w posts
        = (Inr (identity_mapping (set_iter env unique_tags)), w')
    \<and> (\<forall>t\<in>set unique_tags. \<exists>s. t = JStr s
          \<and> map_of (identity_mapping (set_iter env unique_tags)) s = Some t)
    \<and> (\<forall>s v. map_of (identity_mapping (set_iter env unique_tags)) s = Some v \<longrightarrow>
          v = JStr s \<and> v \<in> set unique_tags)
    \<and> (\<forall>p\<in>set posts. \<forall>tags. map_of p k_tags = Some (JList tags) \<longrightarrow>
          (\<exists>new_tags. apply_unified env (identity_mapping (set_iter env unique_tags)) p
               = Inr (AList.update k_tags (JList new_tags) p)
             \<and> set new_tags = set tags))"
proof (intro conjI)
  let ?idm = "identity_mapping (set_iter env unique_tags)"
  have it: "set (set_iter env unique_tags) = set unique_tags"
    using assms(1) by (rule iter_ok_set)
  from collected_strs [OF assms(1,2,4)]
  have strs: "list_all is_str unique_tags"
    and sub: "\<forall>p\<in>set posts. \<forall>ts. map_of p k_tags = Some (JList ts)
        \<longrightarrow> set ts \<subseteq> set unique_tags"
    by blast+
  from assms(5,6) obtain e
    where a: "ask env w unify_template (lit ''tags'') (JStr unique_tags_list) = (Inl e, w')"
    by (auto simp: ask_unfold)
  show "get_unified_tags env w posts = (Inr ?idm, w')"
    unfolding get_unified_tags_def assms(2)
    using assms(3) by (simp add: Let_def assms(4) a)
  show "\<forall>t\<in>set unique_tags. \<exists>s. t = JStr s \<and> map_of ?idm s = Some t"
  proof
    fix t
    assume t: "t \<in> set unique_tags"
    with strs have "is_str t" by (simp add: list_all_iff)
    then obtain s where "t = JStr s" by (cases t) simp_all
    with t it show "\<exists>s. t = JStr s \<and> map_of ?idm s = Some t"
      by (simp add: map_of_identity_mapping)
  qed
  show "\<forall>s v. map_of ?idm s = Some v \<longrightarrow> v = JStr s \<and> v \<in> set unique_tags"
    using it by (auto simp: map_of_identity_mapping split: if_splits)
  show "\<forall>p\<in>set posts. \<forall>tags. map_of p k_tags = Some (JList tags) \<longrightarrow>
          (\<exists>new_tags. apply_unified env ?idm p
               = Inr (AList.update k_tags (JList new_tags) p)
             \<and> set new_tags = set tags)"
  proof (intro ballI allI impI)
    fix p tags
    assume p: "p \<in> set posts" and tg: "map_of p k_tags = Some (JList tags)"
    from sub p tg have in_us: "set tags \<subseteq> set unique_tags" by blast
    with strs have s: "\<forall>t\<in>set tags. is_str t" by (auto simp: list_all_iff)
    then have h: "\<forall>t\<in>set tags. hashable t"
    proof (intro ballI)
      fix t assume "t \<in> set tags"
      with s have "is_str t" by blast
      then show "hashable t" by (cases t) simp_all
    qed
    have same: "unified_get ?idm t = t" if "t \<in> set tags" for t
      using that in_us it s by (intro unified_get_identity) auto
    from apply_unified_tags [OF assms(1) tg h identity_mapping_hashable] obtain new_tags
      where n: "apply_unified env ?idm p = Inr (AList.update k_tags (JList new_tags) p)"
        "set new_tags \<subseteq> unified_get ?idm ` set tags"
        "\<forall>t\<in>set tags. \<exists>u\<in>set new_tags. py_eq (unified_get ?idm t) u"
        "distinct (map as_number new_tags)"
      by blast
    have "\<forall>t\<in>set tags. is_str (unified_get ?idm t)"
      using s same by simp
    from str_tags_exact(1) [OF n(2-4) this] same have "set new_tags = set tags"
      by simp
    with n(1) show "\<exists>new_tags. apply_unified env ?idm p
               = Inr (AList.update k_tags (JList new_tags) p)
             \<and> set new_tags = set tags"
      by blast
  qed
qed

theorem unification_identity_fallback_witness:
  \<open>iter_ok (canned_env [] [] (Inr (lit ''not json'')) (Inl OutputParserException))
   \<and> collect_tags []
        [[(k_tags, JList [JStr (lit ''Jobs'')])],
         [(k_tags, JList [JStr (lit ''AI''), JStr (lit ''Jobs'')])]]
      = Inr [JStr (lit ''Jobs''), JStr (lit ''AI'')]
   \<and> [JStr (lit ''Jobs''), JStr (lit ''AI'')] \<noteq> []
   \<and> str_join (lit '','')
        (set_iter (canned_env [] [] (Inr (lit ''not json'')) (Inl OutputParserException))
           [JStr (lit ''Jobs''), JStr (lit ''AI'')])
      = Inr (lit ''Jobs,AI'')
   \<and> invoke (canned_env [] [] (Inr (lit ''not json'')) (Inl OutputParserException)) (0, [])
        unify_template (lit ''tags'') (JStr (lit ''Jobs,AI''))
      = (Inr (lit ''not json''), (1, []))
   \<and> parse (canned_env [] [] (Inr (lit ''not json'')) (Inl OutputParserException))
        (lit ''not json'') = Inl OutputParserException
   \<and> get_unified_tags (canned_env [] [] (Inr (lit ''not json'')) (Inl OutputParserException))
        (0, [])
        [[(k_tags, JList [JStr (lit ''Jobs'')])],
         [(k_tags, JList [JStr (lit ''AI''), JStr (lit ''Jobs'')])]]
      = (Inr [(lit ''Jobs'', JStr (lit ''Jobs'')), (lit ''AI'', JStr (lit ''AI''))], (1, []))\<close>
proof -
  let ?env = "canned_env [] [] (Inr (lit ''not json'')) (Inl OutputParserException)"
  let ?posts = "[[(k_tags, JList [JStr (lit ''Jobs'')])],
         [(k_tags, JList [JStr (lit ''AI''), JStr (lit ''Jobs'')])]]"
  have ne: "lit ''Jobs'' \<noteq> lit ''AI''" "lit ''AI'' \<noteq> lit ''Jobs''"
    by (simp_all add: lit_def)
  have ok: "iter_ok ?env" by (rule canned_iter_ok)
  have c: "collect_tags [] ?posts = Inr [JStr (lit ''Jobs''), JStr (lit ''AI'')]"
    by (simp add: set_add_def py_eq_def ne)
  have n: "[JStr (lit ''Jobs''), JStr (lit ''AI'')] \<noteq> []" by simp
  have j: "str_join (lit '','') (set_iter ?env [JStr (lit ''Jobs''), JStr (lit ''AI'')])
      = Inr (lit ''Jobs,AI'')"
    by (simp add: canned_env_def lit_def)
  have i: "invoke ?env (0, []) unify_template (lit ''tags'') (JStr (lit ''Jobs,AI''))
      = (Inr (lit ''not json''), (1, []))"
    by (simp add: canned_env_def)
  have p: "parse ?env (lit ''not json'') = Inl OutputParserException"
    by (simp add: canned_env_def)
  have f: "(\<exists>e. (Inr (lit ''not json'') :: error + pystr) = Inl e)
      \<or> (\<exists>c e. (Inr (lit ''not json'') :: error + pystr) = Inr c \<and> parse ?env c = Inl e)"
    using p by simp
  have s: "set_iter ?env xs = xs" for xs by (simp add: canned_env_def)
  have idm: "identity_mapping (set_iter ?env [JStr (lit ''Jobs''), JStr (lit ''AI'')])
      = [(lit ''Jobs'', JStr (lit ''Jobs'')), (lit ''AI'', JStr (lit ''AI''))]"
    by (simp add: s identity_mapping_def)
  from unification_identity_fallback [OF ok c n j i f, THEN conjunct1]
  have g: "get_unified_tags ?env (0, []) ?posts
      = (Inr [(lit ''Jobs'', JStr (lit ''Jobs'')), (lit ''AI'', JStr (lit ''AI''))], (1, []))"
    unfolding idm .
  show ?thesis
    by (intro conjI ok c n j i p g)
qed

section \<open>A batch without tags\<close>

lemma collect_tags_empty:
  assumes "collect_tags [] posts = Inr []"
  shows "\<forall>p\<in>set posts. \<forall>ts. map_of p k_tags = Some (JList ts) \<longrightarrow> ts = []"
proof (intro ballI allI impI)
  fix p ts
  assume p: "p \<in> set posts" and ts: "map_of p k_tags = Some (JList ts)"
  from collect_tags_Inr(2) [OF assms] p ts
  have "\<forall>t\<in>set ts. \<exists>u\<in>set ([] :: json list). py_eq t u" by blast
  then show "ts = []" by (cases ts) auto
qed

lemma apply_all_no_tags:
  assumes "iter_ok env"
    and "\<forall>r\<in>set records. map_of r k_tags = Some (JList [])"
  shows "apply_all env unified_tags records = Inr records"
  using assms(2)
proof (induction records)
  case Nil
  show ?case by simp
next
  case (Cons r records)
  then have t: "map_of r k_tags = Some (JList [])" by simp
  have "apply_unified env unified_tags r = Inr r"
    using iter_ok_Nil [OF assms(1)] t by (simp add: apply_unified_def update_triv)
  with Cons show ?case by simp
qed

text \<open>
  C5. Let the set of tags collected from the records be empty. Then
  \<open>get_unified_tags\<close> returns the empty mapping and the state of the world is the one
  it started from, whatever the model would have done: there is no call. This holds
  for any records, with or without a \<open>tags\<close> field; the function returns a mapping
  and has no access to the fields of a record. In the pipeline the records are the
  ones the first loop yields, and each of those has a list of tags; here it is the
  empty list. The second loop returns every record as it was, and the pipeline
  returns the records of the first loop, with no call after the first loop.
\<close>

theorem no_tags_short_circuit:
  assumes "iter_ok env"
    and "collect_tags [] records = Inr []"
  shows "get_unified_tags env w records = (Inr [], w)
    \<and> (\<forall>w0 posts. enrich_posts env w0 posts = (Inr records, w) \<longrightarrow>
          list_all (\<lambda>r. map_of r k_tags = Some (JList [])) records
        \<and> apply_all env [] records = Inr records
        \<and> unify_posts env w records = (Inr records, w)
        \<and> (\<forall>raw_file_path content.
              read_file env w0 raw_file_path = Inr content \<longrightarrow>
              json_load env content = Inr (JList posts) \<longrightarrow>
              process_posts env w0 raw_file_path None = (records, w)))"
proof (intro conjI allI impI)
  show g: "get_unified_tags env w records = (Inr [], w)"
    by (simp add: get_unified_tags_def assms(2))
  fix w0 posts
  assume e: "enrich_posts env w0 posts = (Inr records, w)"
  from enrich_posts_tags [OF e] collect_tags_empty [OF assms(2)]
  have t: "\<forall>r\<in>set records. map_of r k_tags = Some (JList [])" by blast
  then show "list_all (\<lambda>r. map_of r k_tags = Some (JList [])) records"
    by (simp add: list_all_iff)
  show a: "apply_all env [] records = Inr records"
    using assms(1) t by (rule apply_all_no_tags)
  show u: "unify_posts env w records = (Inr records, w)"
    by (simp add: unify_posts_def g a)
  fix raw_file_path content
  assume "read_file env w0 raw_file_path = Inr content"
    and "json_load env content = Inr (JList posts)"
  then show "process_posts env w0 raw_file_path None = (records, w)"
    by (simp add: process_posts_def e u)
qed

theorem no_tags_short_circuit_witness:
  \<open>iter_ok
     (canned_env
        [(lit ''raw_posts.json'', lit ''[{"text": "Hello"}, {"text": "Hi"}]'')]
        [(lit ''[{"text": "Hello"}, {"text": "Hi"}]'',
          JList [JObj [(k_text, JStr (lit ''Hello''))], JObj [(k_text, JStr (lit ''Hi''))]])]
        (Inr (lit ''{"line_count": 1, "language": "English", "tags": []}''))
        (Inr (JObj [(k_line_count, JInt 1), (k_language, JStr (lit ''English'')),
                    (k_tags, JList [])])))
   \<and> collect_tags []
        [[(k_text, JStr (lit ''Hello'')), (k_line_count, JInt 1),
          (k_language, JStr (lit ''English'')), (k_tags, JList [])],
         [(k_text, JStr (lit ''Hi'')), (k_line_count, JInt 1),
          (k_language, JStr (lit ''English'')), (k_tags, JList [])]] = Inr []
   \<and> get_unified_tags
     (canned_env
        [(lit ''raw_posts.json'', lit ''[{"text": "Hello"}, {"text": "Hi"}]'')]
        [(lit ''[{"text": "Hello"}, {"text": "Hi"}]'',
          JList [JObj [(k_text, JStr (lit ''Hello''))], JObj [(k_text, JStr (lit ''Hi''))]])]
        (Inr (lit ''{"line_count": 1, "language": "English", "tags": []}''))
        (Inr (JObj [(k_line_count, JInt 1), (k_language, JStr (lit ''English'')),
                    (k_tags, JList [])])))
     (2, [])
        [[(k_text, JStr (lit ''Hello'')), (k_line_count, JInt 1),
          (k_language, JStr (lit ''English'')), (k_tags, JList [])],
         [(k_text, JStr (lit ''Hi'')), (k_line_count, JInt 1),
          (k_language, JStr (lit ''English'')), (k_tags, JList [])]] = (Inr [], (2, []))
   \<and> process_posts
     (canned_env
        [(lit ''raw_posts.json'', lit ''[{"text": "Hello"}, {"text": "Hi"}]'')]
        [(lit ''[{"text": "Hello"}, {"text": "Hi"}]'',
          JList [JObj [(k_text, JStr (lit ''Hello''))], JObj [(k_text, JStr (lit ''Hi''))]])]
        (Inr (lit ''{"line_count": 1, "language": "English", "tags": []}''))
        (Inr (JObj [(k_line_count, JInt 1), (k_language, JStr (lit ''English'')),
                    (k_tags, JList [])])))
     (0, []) (lit ''raw_posts.json'') None
    = ([[(k_text, JStr (lit ''Hello'')), (k_line_count, JInt 1),
         (k_language, JStr (lit ''English'')), (k_tags, JList [])],
        [(k_text, JStr (lit ''Hi'')), (k_line_count, JInt 1),
         (k_language, JStr (lit ''English'')), (k_tags, JList [])]], (2, []))
   \<and> collect_tags [] [[(k_text, JStr (lit ''Hey''))]] = Inr []
   \<and> get_unified_tags
     (canned_env
        [(lit ''raw_posts.json'', lit ''[{"text": "Hello"}, {"text": "Hi"}]'')]
        [(lit ''[{"text": "Hello"}, {"text": "Hi"}]'',
          JList [JObj [(k_text, JStr (lit ''Hello''))], JObj [(k_text, JStr (lit ''Hi''))]])]
        (Inr (lit ''{"line_count": 1, "language": "English", "tags": []}''))
        (Inr (JObj [(k_line_count, JInt 1), (k_language, JStr (lit ''English'')),
                    (k_tags, JList [])])))
     (0, []) [[(k_text, JStr (lit ''Hey''))]] = (Inr [], (0, []))\<close>
proof -
  let ?m = "[(k_line_count, JInt 1), (k_language, JStr (lit ''English'')), (k_tags, JList [])]"
  let ?docs = "[(lit ''[{\"text\": \"Hello\"}, {\"text\": \"Hi\"}]'',
          JList [JObj [(k_text, JStr (lit ''Hello''))], JObj [(k_text, JStr (lit ''Hi''))]])]"
  let ?files = "[(lit ''raw_posts.json'', lit ''[{\"text\": \"Hello\"}, {\"text\": \"Hi\"}]'')]"
  let ?env = "canned_env ?files ?docs
        (Inr (lit ''{\"line_count\": 1, \"language\": \"English\", \"tags\": []}''))
        (Inr (JObj ?m))"
  let ?p0 = "JObj [(k_text, JStr (lit ''Hello''))]"
  let ?p1 = "JObj [(k_text, JStr (lit ''Hi''))]"
  let ?r0 = "[(k_text, JStr (lit ''Hello'')), (k_line_count, JInt 1),
          (k_language, JStr (lit ''English'')), (k_tags, JList [])]"
  let ?r1 = "[(k_text, JStr (lit ''Hi'')), (k_line_count, JInt 1),
          (k_language, JStr (lit ''English'')), (k_tags, JList [])]"
  have ok: "iter_ok ?env" by (rule canned_iter_ok)
  have v: "validate_response (JObj ?m) = Inr ?m"
    by (simp add: validate_response_def all_keys_in_obj required_keys_def)
  have tx0: "map_of [(k_text, JStr (lit ''Hello''))] k_text = Some (JStr (lit ''Hello''))"
    by simp
  have tx1: "map_of [(k_text, JStr (lit ''Hi''))] k_text = Some (JStr (lit ''Hi''))"
    by simp
  have e0: "enrich_post ?env w ?p0 = (Inr ?r0, (Suc (fst w), snd w))" for w
    unfolding enrich_post_str [OF tx0 clean_Hello clean_Hello canned_ask]
    by (simp add: v dict_merge_def dict_items_def)
  have e1: "enrich_post ?env w ?p1 = (Inr ?r1, (Suc (fst w), snd w))" for w
    unfolding enrich_post_str [OF tx1 clean_Hi clean_Hi canned_ask]
    by (simp add: v dict_merge_def dict_items_def)
  have e: "enrich_posts ?env (0, []) [?p0, ?p1] = (Inr [?r0, ?r1], (2, []))"
    unfolding enrich_posts.simps e0 e1 by simp
  have c: "collect_tags [] [?r0, ?r1] = Inr []" by simp
  have c': "collect_tags [] [[(k_text, JStr (lit ''Hey''))]] = Inr []" by simp
  have rd: "read_file ?env (0, []) (lit ''raw_posts.json'')
      = Inr (lit ''[{\"text\": \"Hello\"}, {\"text\": \"Hi\"}]'')"
    by (simp add: canned_env_def)
  have ld: "json_load ?env (lit ''[{\"text\": \"Hello\"}, {\"text\": \"Hi\"}]'')
      = Inr (JList [?p0, ?p1])"
    by (simp add: canned_env_def)
  note th = no_tags_short_circuit [OF ok c, of "(2, [])"]
  from th have g: "get_unified_tags ?env (2, []) [?r0, ?r1] = (Inr [], (2, []))"
    by (rule conjunct1)
  from th [THEN conjunct2, rule_format, OF e, THEN conjunct2, THEN conjunct2, THEN conjunct2,
      rule_format, OF rd ld]
  have p: "process_posts ?env (0, []) (lit ''raw_posts.json'') None = ([?r0, ?r1], (2, []))" .
  from no_tags_short_circuit [OF ok c', of "(0, [])"]
  have g': "get_unified_tags ?env (0, []) [[(k_text, JStr (lit ''Hey''))]] = (Inr [], (0, []))"
    by (rule conjunct1)
  show ?thesis
    by (intro conjI ok c g p c' g')
qed

section \<open>The other fields of a record\<close>

lemma default_metadata_other:
  "k \<noteq> k_line_count \<Longrightarrow> k \<noteq> k_language \<Longrightarrow> k \<noteq> k_tags \<Longrightarrow>
   map_of (default_metadata n) k = None"
  by (simp add: default_metadata_def)

text \<open>
  The record the loop body yields, from the answer to its request: the merge of an
  accepted answer, or the record with the defaults.
\<close>

lemma enrich_post_result:
  assumes tx: "map_of d k_text = Some t"
    and a: "ask env w extract_template (lit ''post'')
              (clean_unicode_text (clean_unicode_text t)) = (r0, w1)"
    and ok: "enrich_post env w (JObj d) = (Inr r, w')"
  shows "(case (case r0 of Inl e \<Rightarrow> Inl e | Inr res \<Rightarrow> validate_response res) of
            Inr m' \<Rightarrow> r = dict_merge (AList.update k_text (clean_unicode_text t) d) m'
          | Inl e \<Rightarrow> \<exists>n. r = store_defaults n (AList.update k_text (clean_unicode_text t) d))"
  using ok
  by (auto simp: enrich_post_def extract_metadata_def Let_def tx a dict_merge_defaults
      split: sum.splits if_splits)

lemma enrich_post_field:
  assumes ok: "enrich_post env w (JObj d) = (Inr r, w')"
    and k: "k \<noteq> k_text" "k \<noteq> k_line_count" "k \<noteq> k_language" "k \<noteq> k_tags"
  shows "map_of r k =
    (case post_answer env w (JObj d) of
       Inr (JObj m) \<Rightarrow>
         if map_of m k_line_count \<noteq> None \<and> map_of m k_language \<noteq> None
            \<and> map_of m k_tags \<noteq> None
         then (case map_of m k of Some v \<Rightarrow> Some v | None \<Rightarrow> map_of d k)
         else map_of d k
     | _ \<Rightarrow> map_of d k)"
proof -
  from ok obtain t where tx: "map_of d k_text = Some t"
    by (cases "map_of d k_text") (simp_all add: enrich_post_def)
  let ?post1 = "AList.update k_text (clean_unicode_text t) d"
  have p1: "map_of ?post1 k = map_of d k"
    using k(1) by (simp add: update_conv')
  obtain r0 w1 where a: "ask env w extract_template (lit ''post'')
              (clean_unicode_text (clean_unicode_text t)) = (r0, w1)"
    by (cases "ask env w extract_template (lit ''post'')
              (clean_unicode_text (clean_unicode_text t))")
  have pa: "post_answer env w (JObj d) = r0"
    unfolding post_answer_obj [OF tx] a by simp
  note res = enrich_post_result [OF tx a ok]
  have kept: "map_of (store_defaults n ?post1) k = map_of d k" for n
    using k(2-4) p1 by (simp add: store_defaults_lookup)
  show ?thesis
  proof (cases "case r0 of Inl e \<Rightarrow> Inl e | Inr res \<Rightarrow> validate_response res")
    case (Inl e)
    with res obtain n where r: "r = store_defaults n ?post1" by auto
    have "\<not> (map_of m k_line_count \<noteq> None \<and> map_of m k_language \<noteq> None
            \<and> map_of m k_tags \<noteq> None)" if "r0 = Inr (JObj m)" for m
    proof
      assume "map_of m k_line_count \<noteq> None \<and> map_of m k_language \<noteq> None
            \<and> map_of m k_tags \<noteq> None"
      then obtain m' where "validate_response (JObj m) = Inr m'"
        using validate_response_keys by blast
      with Inl that show False by simp
    qed
    then show ?thesis
      unfolding pa r kept
      by (auto split: sum.splits json.splits)
  next
    case (Inr m')
    with res have r: "r = dict_merge ?post1 m'" by simp
    from Inr obtain res0 where r0: "r0 = Inr res0" and v: "validate_response res0 = Inr m'"
      by (cases r0) simp_all
    from v obtain m where m: "res0 = JObj m"
      and keys: "map_of m k_line_count \<noteq> None" "map_of m k_language \<noteq> None"
        "map_of m k_tags \<noteq> None"
      by (rule validate_response_Inr) auto
    from v m k(4) have same: "map_of m' k = map_of m k"
      by (simp add: validated_other_keys)
    show ?thesis
      unfolding pa r r0 m using keys p1 same
      by (simp add: map_of_dict_merge map_add_def split: option.splits)
  qed
qed

lemma apply_unified_other:
  assumes "apply_unified env unified_tags r = Inr r'" "k \<noteq> k_tags"
  shows "map_of r' k = map_of r k"
  using assms
  by (auto simp: apply_unified_def Let_def update_conv' split: sum.splits)

text \<open>
  C6 as stated fails. The record \<open>{"text": "Hello", "likes": 5}\<close> is enriched with
  the answer \<open>{"line_count": 1, "language": "English", "tags": [], "likes": 0}\<close>.
  The answer has the three keys, so \<open>post | metadata\<close> stores all four of its fields
  into the record, and the record the pipeline returns has \<open>likes\<close> \<open>0\<close>. (No tag is
  collected, so the model is called once.)
\<close>

theorem enrichment_overwrites_field:
  \<open>process_posts
     (canned_env
        [(lit ''raw_posts.json'', lit ''[{"text": "Hello", "likes": 5}]'')]
        [(lit ''[{"text": "Hello", "likes": 5}]'',
          JList [JObj [(k_text, JStr (lit ''Hello'')), (lit ''likes'', JInt 5)]])]
        (Inr (lit ''{"line_count": 1, "language": "English", "tags": [], "likes": 0}''))
        (Inr (JObj [(k_line_count, JInt 1), (k_language, JStr (lit ''English'')),
                    (k_tags, JList []), (lit ''likes'', JInt 0)])))
     (0, []) (lit ''raw_posts.json'') None
   = ([[(k_text, JStr (lit ''Hello'')), (lit ''likes'', JInt 0), (k_line_count, JInt 1),
        (k_language, JStr (lit ''English'')), (k_tags, JList [])]], (1, []))\<close>
proof -
  let ?d = "[(k_text, JStr (lit ''Hello'')), (lit ''likes'', JInt 5)]"
  let ?m = "[(k_line_count, JInt 1), (k_language, JStr (lit ''English'')),
                    (k_tags, JList []), (lit ''likes'', JInt 0)]"
  let ?r = "[(k_text, JStr (lit ''Hello'')), (lit ''likes'', JInt 0), (k_line_count, JInt 1),
        (k_language, JStr (lit ''English'')), (k_tags, JList [])]"
  have k: "k_text \<noteq> lit ''likes''" "k_line_count \<noteq> lit ''likes''"
    "k_language \<noteq> lit ''likes''" "k_tags \<noteq> lit ''likes''"
    "lit ''likes'' \<noteq> k_text" "lit ''likes'' \<noteq> k_line_count"
    "lit ''likes'' \<noteq> k_language" "lit ''likes'' \<noteq> k_tags"
    by (simp_all add: k_text_def k_line_count_def k_language_def k_tags_def lit_def)
  have c: "clean_unicode_text (JStr (lit ''Hello'')) = JStr (lit ''Hello'')"
    by (rule clean_unicode_text_ascii)
      (simp_all add: lit_def backslash_n_def backslash_t_def sublist_Cons_right)
  have v: "validate_response (JObj ?m) = Inr ?m"
    using k by (simp add: validate_response_def all_keys_in_obj required_keys_def)
  have tx: "map_of ?d k_text = Some (JStr (lit ''Hello''))" by simp
  have e: "enrich_post (canned_env files docs (Inr content) (Inr (JObj ?m))) w (JObj ?d)
      = (Inr ?r, (Suc (fst w), snd w))" for files docs content w
    unfolding enrich_post_str [OF tx c c canned_ask]
    using k by (simp add: v dict_merge_def dict_items_def)
  have u: "unify_posts (canned_env files docs reply parsed) w [?r] = (Inr [?r], w)"
    for files docs reply parsed w
    using k by (simp add: unify_posts_def get_unified_tags_def apply_unified_def canned_env_def)
  have rd: "read_file (canned_env [(lit ''raw_posts.json'', c)] docs reply parsed) w
      (lit ''raw_posts.json'') = Inr c" for c docs reply parsed w
    by (simp add: canned_env_def)
  have ld: "json_load (canned_env files [(c, v)] reply parsed) c = Inr v"
    for files c v reply parsed
    by (simp add: canned_env_def)
  show ?thesis
    by (simp add: process_posts_def rd ld e u)
qed

text \<open>
  C6, as amended. Let the loop body yield a record for a post, let the second loop
  rewrite the tags of that record, and take a field other than \<open>text\<close>,
  \<open>line_count\<close>, \<open>language\<close> and \<open>tags\<close>. When the answer to the request made for
  this post is an object that has the three required keys and a field of that name,
  both records carry the value the answer gives to the field. In every other case
  (the call or the parser raised, the answer is no object, it lacks a required key,
  or it has no such field) both records carry for the field what the post had,
  a value or none.
\<close>

theorem other_fields_preserved:
  assumes "enrich_post env w (JObj d) = (Inr r, w')"
    and "apply_unified env unified_tags r = Inr r'"
    and "k \<noteq> k_text" and "k \<noteq> k_line_count" and "k \<noteq> k_language" and "k \<noteq> k_tags"
  shows "(\<forall>m v. post_answer env w (JObj d) = Inr (JObj m) \<longrightarrow>
            map_of m k_line_count \<noteq> None \<longrightarrow> map_of m k_language \<noteq> None \<longrightarrow>
            map_of m k_tags \<noteq> None \<longrightarrow> map_of m k = Some v \<longrightarrow>
            map_of r k = Some v \<and> map_of r' k = Some v)
    \<and> ((\<forall>m. post_answer env w (JObj d) = Inr (JObj m) \<longrightarrow>
            map_of m k_line_count \<noteq> None \<longrightarrow> map_of m k_language \<noteq> None \<longrightarrow>
            map_of m k_tags \<noteq> None \<longrightarrow> map_of m k = None) \<longrightarrow>
         map_of r k = map_of d k \<and> map_of r' k = map_of d k)"
proof -
  note f = enrich_post_field [OF assms(1,3-6)]
  have same: "map_of r' k = map_of r k"
    using assms(2,6) by (rule apply_unified_other)
  have 1: "map_of r k = Some v"
    if "post_answer env w (JObj d) = Inr (JObj m)" "map_of m k_line_count \<noteq> None"
      "map_of m k_language \<noteq> None" "map_of m k_tags \<noteq> None" "map_of m k = Some v"
    for m v
    unfolding f using that by simp
  have 2: "map_of r k = map_of d k"
    if "\<forall>m. post_answer env w (JObj d) = Inr (JObj m) \<longrightarrow>
            map_of m k_line_count \<noteq> None \<longrightarrow> map_of m k_language \<noteq> None \<longrightarrow>
            map_of m k_tags \<noteq> None \<longrightarrow> map_of m k = None"
    unfolding f using that
    by (auto split: sum.splits json.splits option.splits)
  from 1 2 same show ?thesis by simp
qed

theorem other_fields_preserved_witness:
  \<open>enrich_post
      (canned_env [] []
         (Inr (lit ''{"line_count": 1, "language": "English", "tags": [], "likes": 0}''))
         (Inr (JObj [(k_line_count, JInt 1), (k_language, JStr (lit ''English'')),
                     (k_tags, JList []), (lit ''likes'', JInt 0)])))
      (0, []) (JObj [(k_text, JStr (lit ''Hello'')), (lit ''likes'', JInt 5)])
    = (Inr [(k_text, JStr (lit ''Hello'')), (lit ''likes'', JInt 0), (k_line_count, JInt 1),
            (k_language, JStr (lit ''English'')), (k_tags, JList [])], (1, []))
   \<and> map_of [(k_text, JStr (lit ''Hello'')), (lit ''likes'', JInt 0), (k_line_count, JInt 1),
             (k_language, JStr (lit ''English'')), (k_tags, JList [])] (lit ''likes'')
      = Some (JInt 0)
   \<and> enrich_post
      (canned_env [] [] (Inr (lit ''{"language": "English", "likes": 0}''))
         (Inr (JObj [(k_language, JStr (lit ''English'')), (lit ''likes'', JInt 0)])))
      (0, []) (JObj [(k_text, JStr (lit ''Hello'')), (lit ''likes'', JInt 5)])
    = (Inr [(k_text, JStr (lit ''Hello'')), (lit ''likes'', JInt 5), (k_line_count, JInt 1),
            (k_language, JStr (lit ''English'')),
            (k_tags, JList [JStr (lit ''General'')])], (1, []))
   \<and> apply_unified
      (canned_env [] [] (Inr (lit ''{"language": "English", "likes": 0}''))
         (Inr (JObj [(k_language, JStr (lit ''English'')), (lit ''likes'', JInt 0)])))
      [(lit ''General'', JStr (lit ''Misc''))]
      [(k_text, JStr (lit ''Hello'')), (lit ''likes'', JInt 5), (k_line_count, JInt 1),
       (k_language, JStr (lit ''English'')), (k_tags, JList [JStr (lit ''General'')])]
    = Inr [(k_text, JStr (lit ''Hello'')), (lit ''likes'', JInt 5), (k_line_count, JInt 1),
           (k_language, JStr (lit ''English'')), (k_tags, JList [JStr (lit ''Misc'')])]
   \<and> map_of [(k_text, JStr (lit ''Hello'')), (lit ''likes'', JInt 5), (k_line_count, JInt 1),
             (k_language, JStr (lit ''English'')), (k_tags, JList [JStr (lit ''Misc'')])]
        (lit ''likes'')
      = map_of [(k_text, JStr (lit ''Hello'')), (lit ''likes'', JInt 5)] (lit ''likes'')\<close>
proof -
  let ?d = "[(k_text, JStr (lit ''Hello'')), (lit ''likes'', JInt 5)]"
  let ?m1 = "[(k_line_count, JInt 1), (k_language, JStr (lit ''English'')),
              (k_tags, JList []), (lit ''likes'', JInt 0)]"
  let ?m2 = "[(k_language, JStr (lit ''English'')), (lit ''likes'', JInt 0)]"
  let ?env1 = "canned_env [] []
         (Inr (lit ''{\"line_count\": 1, \"language\": \"English\", \"tags\": [], \"likes\": 0}''))
         (Inr (JObj ?m1))"
  let ?env2 = "canned_env [] [] (Inr (lit ''{\"language\": \"English\", \"likes\": 0}''))
         (Inr (JObj ?m2))"
  let ?r1 = "[(k_text, JStr (lit ''Hello'')), (lit ''likes'', JInt 0), (k_line_count, JInt 1),
            (k_language, JStr (lit ''English'')), (k_tags, JList [])]"
  let ?r2 = "[(k_text, JStr (lit ''Hello'')), (lit ''likes'', JInt 5), (k_line_count, JInt 1),
            (k_language, JStr (lit ''English'')), (k_tags, JList [JStr (lit ''General'')])]"
  let ?r2' = "[(k_text, JStr (lit ''Hello'')), (lit ''likes'', JInt 5), (k_line_count, JInt 1),
            (k_language, JStr (lit ''English'')), (k_tags, JList [JStr (lit ''Misc'')])]"
  have k: "k_text \<noteq> lit ''likes''" "k_line_count \<noteq> lit ''likes''"
    "k_language \<noteq> lit ''likes''" "k_tags \<noteq> lit ''likes''"
    "lit ''likes'' \<noteq> k_text" "lit ''likes'' \<noteq> k_line_count"
    "lit ''likes'' \<noteq> k_language" "lit ''likes'' \<noteq> k_tags"
    by (simp_all add: k_text_def k_line_count_def k_language_def k_tags_def lit_def)
  have tx: "map_of ?d k_text = Some (JStr (lit ''Hello''))" by simp
  have v1: "validate_response (JObj ?m1) = Inr ?m1"
    using k by (simp add: validate_response_def all_keys_in_obj required_keys_def)
  have v2: "validate_response (JObj ?m2) = Inl ValueError"
    by (rule validate_response_missing_key [of k_line_count])
      (simp_all add: required_keys_def k)
  have nl: "count_list (lit ''Hello'') newline = 0"
    by (simp add: lit_def newline_def)
  have e1: "enrich_post ?env1 (0, []) (JObj ?d) = (Inr ?r1, (1, []))"
    unfolding enrich_post_str [OF tx clean_Hello clean_Hello canned_ask]
    using k by (simp add: v1 dict_merge_def dict_items_def)
  have e2: "enrich_post ?env2 (0, []) (JObj ?d) = (Inr ?r2, (1, []))"
    unfolding enrich_post_str [OF tx clean_Hello clean_Hello canned_ask]
    using k by (simp add: v2 nl store_defaults_def)
  have a1: "apply_unified ?env1 [] ?r1 = Inr ?r1"
    using k by (simp add: apply_unified_def canned_env_def)
  have a2: "apply_unified ?env2 [(lit ''General'', JStr (lit ''Misc''))] ?r2 = Inr ?r2'"
    using k by (simp add: apply_unified_def canned_env_def unified_get_def set_add_def)
  have pa1: "post_answer ?env1 (0, []) (JObj ?d) = Inr (JObj ?m1)"
    by (simp add: post_answer_def canned_ask)
  have pa2: "post_answer ?env2 (0, []) (JObj ?d) = Inr (JObj ?m2)"
    by (simp add: post_answer_def canned_ask)
  have has: "map_of ?m1 k_line_count \<noteq> None" "map_of ?m1 k_language \<noteq> None"
    "map_of ?m1 k_tags \<noteq> None" "map_of ?m1 (lit ''likes'') = Some (JInt 0)"
    using k by simp_all
  from other_fields_preserved [OF e1 a1 k(5-8), THEN conjunct1, rule_format, OF pa1 has]
  have w1: "map_of ?r1 (lit ''likes'') = Some (JInt 0)" by (rule conjunct2)
  have not_accepted: "\<forall>m. post_answer ?env2 (0, []) (JObj ?d) = Inr (JObj m) \<longrightarrow>
            map_of m k_line_count \<noteq> None \<longrightarrow> map_of m k_language \<noteq> None \<longrightarrow>
            map_of m k_tags \<noteq> None \<longrightarrow> map_of m (lit ''likes'') = None"
    unfolding pa2 by auto
  from other_fields_preserved [OF e2 a2 k(5-8), THEN conjunct2, THEN mp, OF not_accepted]
  have w2: "map_of ?r2' (lit ''likes'') = map_of ?d (lit ''likes'')" by (rule conjunct2)
  show ?thesis
    by (intro conjI e1 w1 e2 a2 w2)
qed

section \<open>The failure policy of the enrichment\<close>






section \<open>A missing or malformed input file\<close>

text \<open>
  C9. When the input file cannot be opened (a missing file raises
  \<open>FileNotFoundError\<close>), or \<open>json.load\<close> raises on its text
  (\<open>JSONDecodeError\<close>), \<open>process_posts\<close> returns the empty list and the world is in
  the state it started from: the model was not called and nothing was written.
\<close>

theorem load_failure_returns_empty:
  assumes "(\<exists>e. read_file env w raw_file_path = Inl e)
    \<or> (\<exists>content e. read_file env w raw_file_path = Inr content
          \<and> json_load env content = Inl e)"
  shows "process_posts env w raw_file_path processed_file_path = ([], w)"
  using assms by (auto simp: process_posts_def)

theorem load_failure_returns_empty_witness:
  \<open>read_file (canned_env [(lit ''raw_posts.json'', lit ''[{"text": '')] [] (Inr []) (Inr JNull))
      (0, []) (lit ''missing.json'') = Inl FileNotFoundError
   \<and> process_posts (canned_env [(lit ''raw_posts.json'', lit ''[{"text": '')] [] (Inr []) (Inr JNull))
      (0, []) (lit ''missing.json'') (Some (lit ''processed_posts.json'')) = ([], (0, []))
   \<and> read_file (canned_env [(lit ''raw_posts.json'', lit ''[{"text": '')] [] (Inr []) (Inr JNull))
      (0, []) (lit ''raw_posts.json'') = Inr (lit ''[{"text": '')
   \<and> json_load (canned_env [(lit ''raw_posts.json'', lit ''[{"text": '')] [] (Inr []) (Inr JNull))
      (lit ''[{"text": '') = Inl JSONDecodeError
   \<and> process_posts (canned_env [(lit ''raw_posts.json'', lit ''[{"text": '')] [] (Inr []) (Inr JNull))
      (0, []) (lit ''raw_posts.json'') (Some (lit ''processed_posts.json'')) = ([], (0, []))\<close>
proof -
  let ?env = "canned_env [(lit ''raw_posts.json'', lit ''[{\"text\": '')] [] (Inr []) (Inr JNull)"
  have ne: "lit ''raw_posts.json'' \<noteq> lit ''missing.json''"
    by (simp add: lit_def)
  have r1: "read_file ?env (0, []) (lit ''missing.json'') = Inl FileNotFoundError"
    using ne by (simp add: canned_env_def)
  have r2: "read_file ?env (0, []) (lit ''raw_posts.json'') = Inr (lit ''[{\"text\": '')"
    by (simp add: canned_env_def)
  have l2: "json_load ?env (lit ''[{\"text\": '') = Inl JSONDecodeError"
    by (simp add: canned_env_def)
  have p1: "process_posts ?env (0, []) (lit ''missing.json'')
      (Some (lit ''processed_posts.json'')) = ([], (0, []))"
    by (rule load_failure_returns_empty) (use r1 in blast)
  have p2: "process_posts ?env (0, []) (lit ''raw_posts.json'')
      (Some (lit ''processed_posts.json'')) = ([], (0, []))"
    by (rule load_failure_returns_empty) (use r2 l2 in blast)
  show ?thesis
    by (intro conjI r1 p1 r2 l2 p2)
qed

end
